theory Spec2Isabelle
  imports Complex_Main "HOL-Library.AList" "HOL-Library.Sublist" "HOL-Library.Multiset"
begin

section \<open>JavaScript values used by the recorder\<close>

text \<open>
  A JavaScript number is an IEEE double: not-a-number, one of the two infinities, or a
  finite value. Every finite double is a rational, so the finite case carries a
  \<^typ>\<open>rat\<close>; \<open>Math.ceil\<close> of a finite double is its exact ceiling. The two zeros
  are not told apart: both are falsy and compare alike.
\<close>

datatype jsnum = NaN | PosInf | NegInf | Number rat

text \<open>
  The result of an arithmetic operation is the exact result rounded to the nearest
  double, ties to the even significand. A double has 53 significant bits and a binary
  exponent from -1022 (below which the spacing stays \<open>2 ^ (-1074)\<close>) to 1023; what
  rounds to \<open>2 ^ 1024\<close> or more is an infinity.
\<close>

function bit_length :: "int \<Rightarrow> nat" where
  "bit_length p = (if p \<le> 0 then 0 else Suc (bit_length (p div 2)))"
  by pat_completeness auto
termination
  by (relation "measure nat") auto

declare bit_length.simps [simp del]

definition pow2 :: "int \<Rightarrow> rat" where
  "pow2 k = (if 0 \<le> k then 2 ^ nat k else 1 / 2 ^ nat (- k))"

text \<open>The binary exponent of a positive rational \<open>a\<close>: the \<open>e\<close> with \<open>2 ^ e \<le> a < 2 ^ (e + 1)\<close>.\<close>

definition floor_log2 :: "rat \<Rightarrow> int" where
  "floor_log2 a =
     (case quotient_of a of
        (p, q) \<Rightarrow>
          (let d = int (bit_length p) - int (bit_length q)
           in if pow2 d \<le> a then d else d - 1))"

definition round_half_even :: "rat \<Rightarrow> int" where
  "round_half_even x =
     (let f = \<lfloor>x\<rfloor>; r = x - of_int f
      in if r < 1 / 2 then f
         else if 1 / 2 < r then f + 1
         else if even f then f else f + 1)"

definition to_double :: "rat \<Rightarrow> jsnum" where
  "to_double x =
     (if x = 0 then Number 0
      else
        (let a = \<bar>x\<bar>;
             e = max (floor_log2 a) (- 1022);
             ulp = pow2 (e - 52);
             m = of_int (round_half_even (a / ulp)) * ulp
         in if pow2 1024 \<le> m then (if x < 0 then NegInf else PosInf)
            else Number (if x < 0 then - m else m)))"

text \<open>\<open>ToBoolean\<close> of a number: \<open>NaN\<close> and zero are falsy.\<close>

fun truthy :: "jsnum \<Rightarrow> bool" where
  "truthy NaN = False"
| "truthy (Number x) = (x \<noteq> 0)"
| "truthy PosInf = True"
| "truthy NegInf = True"

text \<open>The comparison \<open>x > 0\<close>: false whenever \<open>x\<close> is \<open>NaN\<close>.\<close>

fun js_gt0 :: "jsnum \<Rightarrow> bool" where
  "js_gt0 NaN = False"
| "js_gt0 PosInf = True"
| "js_gt0 NegInf = False"
| "js_gt0 (Number x) = (0 < x)"

fun isFinite :: "jsnum \<Rightarrow> bool" where
  "isFinite (Number x) = True"
| "isFinite NaN = False"
| "isFinite PosInf = False"
| "isFinite NegInf = False"

fun Math_ceil :: "jsnum \<Rightarrow> jsnum" where
  "Math_ceil (Number x) = Number (of_int \<lceil>x\<rceil>)"
| "Math_ceil NaN = NaN"
| "Math_ceil PosInf = PosInf"
| "Math_ceil NegInf = NegInf"

text \<open>
  An optional number (\<open>argv.duration\<close> is \<open>undefined\<close> when \<open>--duration\<close> is not
  given): \<open>None\<close> is \<open>undefined\<close>, which is falsy.
\<close>

fun opt_truthy :: "jsnum option \<Rightarrow> bool" where
  "opt_truthy None = False"
| "opt_truthy (Some x) = truthy x"

text \<open>A thrown \<open>Error\<close>, identified by its message.\<close>

datatype error = Error string

section \<open>Duration resolution\<close>

text \<open>
  \<open>recordUrl\<close> first validates its arguments:
  \<^verbatim>\<open>if (!duration && !autoDetectDuration) return { success: false, ... }\<close>
\<close>

definition duration_args_rejected :: "jsnum option \<Rightarrow> bool \<Rightarrow> bool" where
  "duration_args_rejected duration autoDetectDuration =
     (\<not> opt_truthy duration \<and> \<not> autoDetectDuration)"

definition msg_autodetect_failed :: string where
  "msg_autodetect_failed =
     ''Failed to auto-detect video duration. Please provide a manual duration with --duration <seconds>.''"

text \<open>
  The block of \<open>recordUrl\<close> that computes \<open>actualDuration\<close> from the metadata's
  \<open>duration\<close> and the manual \<open>duration\<close>:
  \<^verbatim>\<open>
  let actualDuration = duration;
  if (autoDetectDuration) {
    if (videoMetadata.duration && videoMetadata.duration > 0 && isFinite(videoMetadata.duration)) {
      actualDuration = Math.ceil(videoMetadata.duration);
    } else if (duration) {
      actualDuration = duration;
    } else {
      throw new Error('Failed to auto-detect video duration. ...');
    }
  }\<close>
\<close>

definition actualDuration_recordUrl :: "bool \<Rightarrow> jsnum \<Rightarrow> jsnum option \<Rightarrow> error + jsnum option" where
  "actualDuration_recordUrl autoDetectDuration md_duration duration =
     (if autoDetectDuration then
        (if truthy md_duration \<and> js_gt0 md_duration \<and> isFinite md_duration
         then Inr (Some (Math_ceil md_duration))
         else if opt_truthy duration then Inr duration
         else Inl (Error msg_autodetect_failed))
      else Inr duration)"

text \<open>
  The single-job entry point of \<open>record.js\<close> resolves the duration from what
  \<open>findAndPlayVideo\<close> returns:
  \<^verbatim>\<open>autoDetectedDuration: autoDetectDuration && metadata.duration ? metadata.duration : null\<close>
  and its test of the detected value has no \<open>isFinite\<close>:
  \<^verbatim>\<open>
  let actualDuration = duration;
  if (argv['auto-detect-duration']) {
    if (videoMetadata.autoDetectedDuration && videoMetadata.autoDetectedDuration > 0) {
      actualDuration = Math.ceil(videoMetadata.autoDetectedDuration);
    } else {
      if (argv.duration) { actualDuration = duration; }
      else { throw new Error('Failed to auto-detect video duration. ...'); }
    }
  }\<close>
\<close>

definition autoDetectedDuration :: "bool \<Rightarrow> jsnum \<Rightarrow> jsnum option" where
  "autoDetectedDuration autoDetectDuration md_duration =
     (if autoDetectDuration \<and> truthy md_duration then Some md_duration else None)"

definition msg_autodetect_failed_main :: string where
  "msg_autodetect_failed_main =
     ''Failed to auto-detect video duration. The video element may not have duration metadata (e.g., live stream). Please provide a manual duration with --duration <seconds>.''"

definition actualDuration_main :: "bool \<Rightarrow> jsnum \<Rightarrow> jsnum option \<Rightarrow> error + jsnum option" where
  "actualDuration_main autoDetectDuration md_duration duration =
     (if autoDetectDuration then
        (case autoDetectedDuration autoDetectDuration md_duration of
           Some d \<Rightarrow>
             (if truthy d \<and> js_gt0 d then Inr (Some (Math_ceil d))
              else if opt_truthy duration then Inr duration
              else Inl (Error msg_autodetect_failed_main))
         | None \<Rightarrow>
             (if opt_truthy duration then Inr duration
              else Inl (Error msg_autodetect_failed_main)))
      else Inr duration)"

text \<open>The spec's "finite positive number".\<close>

fun finite_positive :: "jsnum \<Rightarrow> bool" where
  "finite_positive (Number x) = (0 < x)"
| "finite_positive NaN = False"
| "finite_positive PosInf = False"
| "finite_positive NegInf = False"

section \<open>Child processes and their termination\<close>

datatype signal = SIGTERM | SIGINT | SIGKILL

text \<open>
  A Node \<open>ChildProcess\<close> handle together with the operating-system process behind it.
  \<open>pid\<close> is \<open>undefined\<close> (\<open>None\<close>) when the spawn failed. \<open>killed\<close> is Node's
  property of that name: it is set by a \<open>kill()\<close> call that delivered its signal, and
  says nothing about whether the process has exited. \<open>running\<close> is the state of the OS
  process. \<open>exits_within_grace\<close> is the behaviour of the external program: whether it
  exits, before the caller's timer fires, on receiving a signal it can handle.
\<close>

record child_process =
  pid :: "nat option"
  killed :: bool
  running :: bool
  exits_within_grace :: "signal \<Rightarrow> bool"

text \<open>\<open>!process || !process.pid\<close>: the handle is missing, or has no (non-zero) pid.\<close>

fun invalid_process :: "child_process option \<Rightarrow> bool" where
  "invalid_process None = True"
| "invalid_process (Some p) = (case pid p of None \<Rightarrow> True | Some n \<Rightarrow> n = 0)"

text \<open>
  \<open>subprocess.kill(signal)\<close>: a signal sent to a live process is delivered, \<open>killed\<close>
  becomes \<open>true\<close> and the call returns \<open>true\<close>; for a process that has already
  exited nothing is sent and the call returns \<open>false\<close>.
\<close>

definition kill :: "child_process \<Rightarrow> signal \<Rightarrow> child_process \<times> bool" where
  "kill p sig = (if running p then (p\<lparr>killed := True\<rparr>, True) else (p, False))"

text \<open>
  Whether the process exits in response to a delivered signal before the timer of the
  caller fires. \<open>SIGKILL\<close> cannot be handled.
\<close>

definition exits_on :: "child_process \<Rightarrow> signal \<Rightarrow> bool" where
  "exits_on p sig = (sig = SIGKILL \<or> exits_within_grace p sig)"

datatype resolution = NotResolved | ResolvedInvalid | ResolvedOnExit | ResolvedOnTimeout

record termination_result =
  signals_sent :: "signal list"
  resolved :: resolution
  process_after :: child_process

text \<open>
  \<open>CleanupManager.killProcess(name, process, signal)\<close>:
  \<^verbatim>\<open>
  if (!process || !process.pid) { warn; return; }
  return new Promise((resolve) => {
    try {
      process.kill(signal);
      const timeout = setTimeout(() => {
        if (process.killed === false) {
          try { process.kill('SIGKILL'); } catch (err) { ... }
        }
        resolve();
      }, 5000);
      process.on('exit', () => { clearTimeout(timeout); resolve(); });
    } catch (err) { resolve(); }
  });\<close>
  The \<open>exit\<close> listener is attached after the signal is sent, so it fires only for a
  process that was still running then; otherwise the timer decides.
\<close>

definition killProcess :: "child_process \<Rightarrow> signal \<Rightarrow> termination_result" where
  "killProcess p sig =
     (if invalid_process (Some p)
      then \<lparr>signals_sent = [], resolved = ResolvedInvalid, process_after = p\<rparr>
      else
        (let (p1, delivered) = kill p sig in
         if delivered \<and> exits_on p1 sig
         then \<lparr>signals_sent = [sig], resolved = ResolvedOnExit,
               process_after = p1\<lparr>running := False\<rparr>\<rparr>
         else if killed p1 = False
         then (let (p2, delivered2) = kill p1 SIGKILL in
               \<lparr>signals_sent = [sig, SIGKILL], resolved = ResolvedOnTimeout,
                process_after = (if delivered2 then p2\<lparr>running := False\<rparr> else p2)\<rparr>)
         else \<lparr>signals_sent = [sig], resolved = ResolvedOnTimeout, process_after = p1\<rparr>))"

text \<open>
  \<open>stopRecording(ffmpegProcess, gracePeriod)\<close> of \<open>lib/recorder.js\<close>:
  \<^verbatim>\<open>
  if (!ffmpegProcess || !ffmpegProcess.pid) { return; }
  return new Promise((resolve) => {
    let resolved = false;
    const cleanup = () => { if (!resolved) { resolved = true; resolve(); } };
    ffmpegProcess.on('exit', (code, signal) => { cleanup(); });
    try { ffmpegProcess.kill('SIGINT'); } catch (err) { cleanup(); return; }
    const forceTimeout = setTimeout(() => {
      if (!resolved && ffmpegProcess.killed === false) {
        try { ffmpegProcess.kill('SIGKILL'); } catch (err) { ... }
        cleanup();
      }
    }, gracePeriod);
    ffmpegProcess.on('exit', () => { clearTimeout(forceTimeout); });
  });\<close>
  Here \<open>cleanup()\<close> at the timer stands inside the test of \<open>killed\<close>: when the test
  fails the promise is left pending until the process exits, if it ever does.
\<close>

definition stopRecording :: "child_process \<Rightarrow> termination_result" where
  "stopRecording p =
     (if invalid_process (Some p)
      then \<lparr>signals_sent = [], resolved = ResolvedInvalid, process_after = p\<rparr>
      else
        (let (p1, delivered) = kill p SIGINT in
         if delivered \<and> exits_on p1 SIGINT
         then \<lparr>signals_sent = [SIGINT], resolved = ResolvedOnExit,
               process_after = p1\<lparr>running := False\<rparr>\<rparr>
         else if killed p1 = False
         then (let (p2, delivered2) = kill p1 SIGKILL in
               \<lparr>signals_sent = [SIGINT, SIGKILL], resolved = ResolvedOnTimeout,
                process_after = (if delivered2 then p2\<lparr>running := False\<rparr> else p2)\<rparr>)
         else \<lparr>signals_sent = [SIGINT], resolved = NotResolved, process_after = p1\<rparr>))"

text \<open>
  The process part of \<open>stopDisplay(displayInfo)\<close> of \<open>lib/display.js\<close>, whose timer
  sends \<open>SIGKILL\<close> without consulting \<open>killed\<close>:
  \<^verbatim>\<open>
  if (!xvfbProcess.pid) { resolve(); return; }
  try { xvfbProcess.kill('SIGTERM'); } catch (err) { resolve(); return; }
  const timeout = setTimeout(() => {
    try { xvfbProcess.kill('SIGKILL'); } catch (err) { }
    resolve();
  }, 5000);
  xvfbProcess.on('exit', () => { clearTimeout(timeout); resolve(); });\<close>
\<close>

definition stopDisplay_process :: "child_process \<Rightarrow> termination_result" where
  "stopDisplay_process p =
     (if invalid_process (Some p)
      then \<lparr>signals_sent = [], resolved = ResolvedInvalid, process_after = p\<rparr>
      else
        (let (p1, delivered) = kill p SIGTERM in
         if delivered \<and> exits_on p1 SIGTERM
         then \<lparr>signals_sent = [SIGTERM], resolved = ResolvedOnExit,
               process_after = p1\<lparr>running := False\<rparr>\<rparr>
         else (let (p2, delivered2) = kill p1 SIGKILL in
               \<lparr>signals_sent = [SIGTERM, SIGKILL], resolved = ResolvedOnTimeout,
                process_after = (if delivered2 then p2\<lparr>running := False\<rparr> else p2)\<rparr>)))"

text \<open>A live process that does not exit on \<open>SIGTERM\<close> or \<open>SIGINT\<close>.\<close>

definition stubborn_process :: child_process where
  "stubborn_process =
     \<lparr>pid = Some 4242, killed = False, running = True, exits_within_grace = (\<lambda>s. False)\<rparr>"

section \<open>The cleanup coordinator\<close>

text \<open>
  A registered cleanup callback, identified by a label; the flag says whether calling it
  throws (or rejects), which \<open>cleanupAll\<close> catches and logs.
\<close>

datatype handler = Handler string bool

text \<open>
  \<open>CleanupManager\<close>: \<open>processes\<close> is a JavaScript \<open>Map\<close> from names to process
  handles. A \<open>Map\<close> iterates in insertion order and \<open>set\<close> on an existing key keeps
  the key's position, which is what \<^const>\<open>AList.update\<close> does on an association list.
\<close>

record cleanup_manager =
  processes :: "(string \<times> child_process) list"
  cleanupHandlers :: "handler list"
  isCleaningUp :: bool

definition new_manager :: cleanup_manager where
  "new_manager = \<lparr>processes = [], cleanupHandlers = [], isCleaningUp = False\<rparr>"

text \<open>
  \<^verbatim>\<open>
  trackProcess(name, process) {
    if (!process || !process.pid) { console.warn(...); return; }
    this.processes.set(name, process);
  }\<close>
\<close>

definition trackProcess :: "string \<Rightarrow> child_process option \<Rightarrow> cleanup_manager \<Rightarrow> cleanup_manager" where
  "trackProcess name po m =
     (case po of
        None \<Rightarrow> m
      | Some p \<Rightarrow>
          if invalid_process (Some p) then m
          else m\<lparr>processes := AList.update name p (processes m)\<rparr>)"

text \<open>
  \<^verbatim>\<open>
  untrackProcess(name) {
    if (this.processes.has(name)) { this.processes.delete(name); }
  }\<close>
\<close>

definition untrackProcess :: "string \<Rightarrow> cleanup_manager \<Rightarrow> cleanup_manager" where
  "untrackProcess name m =
     (if name \<in> fst ` set (processes m)
      then m\<lparr>processes := AList.delete name (processes m)\<rparr>
      else m)"

text \<open>
  \<open>registerCleanupHandler(handler)\<close> keeps the argument only when it is a function;
  \<open>None\<close> stands for any other value.
\<close>

definition registerCleanupHandler :: "handler option \<Rightarrow> cleanup_manager \<Rightarrow> cleanup_manager" where
  "registerCleanupHandler ho m =
     (case ho of
        None \<Rightarrow> m
      | Some h \<Rightarrow> m\<lparr>cleanupHandlers := cleanupHandlers m @ [h]\<rparr>)"

text \<open>
  A tracked process exits on its own. The handle kept in the registry belongs to a
  process that is no longer running. \<open>trackProcess\<close> attaches no \<open>exit\<close> listener to the
  handle, so nothing else in the coordinator changes.
\<close>

definition process_exits :: "string \<Rightarrow> cleanup_manager \<Rightarrow> cleanup_manager" where
  "process_exits name m =
     m\<lparr>processes :=
         map (\<lambda>(n, p). if n = name then (n, p\<lparr>running := False\<rparr>) else (n, p)) (processes m)\<rparr>"

definition live_count :: "cleanup_manager \<Rightarrow> nat" where
  "live_count m = length (filter (\<lambda>(n, p). running p) (processes m))"

definition live_process :: child_process where
  "live_process =
     \<lparr>pid = Some 1001, killed = False, running = True, exits_within_grace = (\<lambda>s. True)\<rparr>"

subsection \<open>The registry-wide cleanup pass\<close>

text \<open>
  \<^verbatim>\<open>
  async cleanupAll(reason = 'cleanup') {
    if (this.isCleaningUp) { log; return; }
    this.isCleaningUp = true;
    for (const handler of this.cleanupHandlers) {
      try { await handler(); } catch (err) { console.error(...); }
    }
    const killPromises = [];
    for (const [name, process] of this.processes.entries()) {
      killPromises.push(this.killProcess(name, process, 'SIGTERM'));
    }
    await Promise.all(killPromises);
    this.processes.clear();
  }\<close>
  An invocation runs until its next \<open>await\<close> without interruption, and other code
  (a second signal's invocation among it) can run only while it is suspended there.
  So an invocation is a coroutine with these suspension points: not yet started;
  waiting for the handler it has just called; waiting for the \<open>killProcess\<close> promises;
  returned.
\<close>

datatype pc = NotStarted | AwaitHandler nat | AwaitKills | Returned

datatype action = RunHandler handler | KillTracked string signal | ClearRegistry

text \<open>
  The state of the process: the coordinator, the suspension point of each invocation of
  \<open>cleanupAll\<close> (invocations are numbered), and the log of actions performed, each
  with the invocation that performed it.
\<close>

record sys =
  mgr :: cleanup_manager
  pcs :: "nat \<Rightarrow> pc"
  acts :: "(nat \<times> action) list"

definition init_sys :: "cleanup_manager \<Rightarrow> sys" where
  "init_sys m = \<lparr>mgr = m, pcs = (\<lambda>i. NotStarted), acts = []\<rparr>"

text \<open>
  Invocation \<open>i\<close> continues with the handler loop at index \<open>k\<close>: it calls handler \<open>k\<close>
  and suspends on it, or, past the last handler, calls \<open>killProcess\<close> with \<open>SIGTERM\<close>
  for every tracked process and suspends on \<open>Promise.all\<close>.
\<close>

definition continue_from :: "nat \<Rightarrow> nat \<Rightarrow> sys \<Rightarrow> sys" where
  "continue_from i k s =
     (if k < length (cleanupHandlers (mgr s))
      then s\<lparr>pcs := (pcs s)(i := AwaitHandler (Suc k)),
             acts := acts s @ [(i, RunHandler (cleanupHandlers (mgr s) ! k))]\<rparr>
      else s\<lparr>pcs := (pcs s)(i := AwaitKills),
             acts := acts s @ map (\<lambda>(n, p). (i, KillTracked n SIGTERM)) (processes (mgr s))\<rparr>)"

text \<open>Invocation \<open>i\<close> runs from its suspension point to the next one.\<close>

definition step :: "sys \<Rightarrow> nat \<Rightarrow> sys" where
  "step s i =
     (case pcs s i of
        NotStarted \<Rightarrow>
          if isCleaningUp (mgr s) then s\<lparr>pcs := (pcs s)(i := Returned)\<rparr>
          else continue_from i 0 (s\<lparr>mgr := (mgr s)\<lparr>isCleaningUp := True\<rparr>\<rparr>)
      | AwaitHandler k \<Rightarrow> continue_from i k s
      | AwaitKills \<Rightarrow>
          s\<lparr>mgr := (mgr s)\<lparr>processes := []\<rparr>,
            pcs := (pcs s)(i := Returned),
            acts := acts s @ [(i, ClearRegistry)]\<rparr>
      | Returned \<Rightarrow> s)"

text \<open>
  A schedule lists, in order, which invocation runs next; any number of invocations
  may be interleaved in any way.
\<close>

definition run_schedule :: "cleanup_manager \<Rightarrow> nat list \<Rightarrow> sys" where
  "run_schedule m sch = foldl step (init_sys m) sch"

text \<open>
  The full cleanup sequence of the claim: the custom handlers in registration order,
  then the termination of every tracked process, then the clearing of the registry.
\<close>

definition cleanup_pass :: "cleanup_manager \<Rightarrow> action list" where
  "cleanup_pass m =
     map RunHandler (cleanupHandlers m)
     @ map (\<lambda>(n, p). KillTracked n SIGTERM) (processes m)
     @ [ClearRegistry]"

subsection \<open>Progress of the invocation that owns the cleanup pass\<close>

text \<open>
  Where the first invocation of \<open>cleanupAll\<close> stands after it has run \<open>c\<close> times
  (\<open>c \<ge> 1\<close>): its suspension point, the actions it has performed, and the coordinator.
\<close>

definition pc_after :: "cleanup_manager \<Rightarrow> nat \<Rightarrow> pc" where
  "pc_after m c =
     (if c \<le> length (cleanupHandlers m) then AwaitHandler c
      else if c = Suc (length (cleanupHandlers m)) then AwaitKills
      else Returned)"

definition acts_after :: "cleanup_manager \<Rightarrow> nat \<Rightarrow> action list" where
  "acts_after m c =
     (if c \<le> length (cleanupHandlers m) then map RunHandler (take c (cleanupHandlers m))
      else if c = Suc (length (cleanupHandlers m))
      then map RunHandler (cleanupHandlers m) @ map (\<lambda>(n, p). KillTracked n SIGTERM) (processes m)
      else cleanup_pass m)"

definition mgr_after :: "cleanup_manager \<Rightarrow> nat \<Rightarrow> cleanup_manager" where
  "mgr_after m c =
     (if c \<le> Suc (length (cleanupHandlers m)) then m\<lparr>isCleaningUp := True\<rparr>
      else m\<lparr>isCleaningUp := True, processes := []\<rparr>)"

definition owned_by :: "cleanup_manager \<Rightarrow> nat \<Rightarrow> nat \<Rightarrow> sys \<Rightarrow> bool" where
  "owned_by m ow c s =
     (mgr s = mgr_after m c \<and> acts s = map (Pair ow) (acts_after m c)
      \<and> pcs s ow = pc_after m c
      \<and> (\<forall>i. i \<noteq> ow \<longrightarrow> pcs s i = NotStarted \<or> pcs s i = Returned))"

text \<open>A coordinator with two handlers and two tracked processes.\<close>

definition two_handler_manager :: cleanup_manager where
  "two_handler_manager =
     \<lparr>processes = [(''xvfb'', live_process), (''ffmpeg'', stubborn_process)],
      cleanupHandlers = [Handler ''audio'' False, Handler ''temp'' True],
      isCleaningUp = False\<rparr>"

section \<open>Traces of collaborator calls\<close>

text \<open>
  A job talks to external collaborators (display server, audio daemon, capture tool,
  browser page). What it asks of them, in order, is recorded as a list of events;
  \<open>Sleep ms\<close> is a call of \<open>sleep(ms)\<close>.
\<close>

datatype event =
    Sleep nat
  | StartDisplay
  | SetupAudio
  | LaunchBrowser
  | CreatePage
  | Navigate
  | SetFullscreen
  | FindVideo
  | ClickIfExists string
  | GetMetadata
  | StartRecording
  | VideoClick
  | VideoPlay
  | VideoCheck
  | MoveSinkInputs
  | StopRecording nat
  | CloseBrowser
  | StopDisplay
  | CleanupAudio
  | TrackProcess string
  | UntrackProcess string
  | RegisterCleanupHandler

text \<open>Decimal text of a number, as a template literal prints it.\<close>

definition digit_char :: "nat \<Rightarrow> char" where
  "digit_char d = ''0123456789'' ! d"

function string_of_nat :: "nat \<Rightarrow> string" where
  "string_of_nat n =
     (if n < 10 then [digit_char n] else string_of_nat (n div 10) @ [digit_char (n mod 10)])"
  by pat_completeness auto
termination
  by (relation "measure (\<lambda>n. n)") auto

declare string_of_nat.simps [simp del]

text \<open>
  The number a decimal text denotes, digit by digit; it serves to show that different
  numbers print differently.
\<close>

definition digit_value :: "char \<Rightarrow> nat" where
  "digit_value c = of_char c - 48"

definition nat_of_string :: "string \<Rightarrow> nat" where
  "nat_of_string s = foldl (\<lambda>a c. 10 * a + digit_value c) 0 s"

section \<open>Starting playback\<close>

text \<open>The state of the media element that the verification step reads.\<close>

record video_state =
  paused :: bool
  ended :: bool
  readyState :: nat

text \<open>
  \<^verbatim>\<open>return video && !video.paused && !video.ended && video.readyState > 2;\<close>
  \<open>None\<close> is a selector that matches no element.
\<close>

definition isPlaying :: "video_state option \<Rightarrow> bool" where
  "isPlaying vo =
     (case vo of None \<Rightarrow> False | Some v \<Rightarrow> \<not> paused v \<and> \<not> ended v \<and> 2 < readyState v)"

text \<open>
  What the page does during one attempt: whether \<open>page.click\<close> throws; whether the
  evaluation of \<open>video.play()\<close> throws, or which \<open>playResult\<close> it returns; whether
  the evaluation of the playing test throws, or which element state it sees.
\<close>

datatype play_result = PlaySuccess | PlayFailure string

record attempt =
  click :: "error option"
  play :: "error + play_result"
  verify :: "error + video_state option"

text \<open>The page, as the behaviour it shows at each attempt number.\<close>

type_synonym page = "nat \<Rightarrow> attempt"

record play_options =
  clickToPlay :: bool
  waitForPlay :: bool
  maxAttempts :: nat

text \<open>\<open>const { clickToPlay = true, waitForPlay = true, maxAttempts = 3 } = options;\<close>\<close>

definition default_play_options :: play_options where
  "default_play_options = \<lparr>clickToPlay = True, waitForPlay = True, maxAttempts = 3\<rparr>"

text \<open>
  How the body of the \<open>try\<close> of one attempt ends, before the wait for the retry:
  \<open>playVideo\<close> returns, or control reaches "Wait before retry", or an exception is
  caught.
\<close>

datatype attempt_end = Return | Retry | Caught error

text \<open>
  \<^verbatim>\<open>
  if (clickToPlay) { await page.click(selector); await sleep(500); }
  const playResult = await page.evaluate(...video.play()...);
  if (playResult.success) {
    if (waitForPlay) {
      await sleep(1000);
      const isPlaying = await page.evaluate(...);
      if (isPlaying) { return; } else { log(...); }
    } else { return; }
  } else { log(...); }\<close>
\<close>

definition attempt_body :: "play_options \<Rightarrow> attempt \<Rightarrow> attempt_end \<times> event list" where
  "attempt_body opts a =
     (case (if clickToPlay opts then click a else None) of
        Some e \<Rightarrow> (Caught e, [VideoClick])
      | None \<Rightarrow>
         (let pre = (if clickToPlay opts then [VideoClick, Sleep 500] else []) in
          case play a of
            Inl e \<Rightarrow> (Caught e, pre @ [VideoPlay])
          | Inr (PlayFailure msg) \<Rightarrow> (Retry, pre @ [VideoPlay])
          | Inr PlaySuccess \<Rightarrow>
              if waitForPlay opts then
                (case verify a of
                   Inl e \<Rightarrow> (Caught e, pre @ [VideoPlay, Sleep 1000, VideoCheck])
                 | Inr v \<Rightarrow>
                     if isPlaying v then (Return, pre @ [VideoPlay, Sleep 1000, VideoCheck])
                     else (Retry, pre @ [VideoPlay, Sleep 1000, VideoCheck]))
              else (Return, pre @ [VideoPlay])))"

definition msg_failed_to_play :: "nat \<Rightarrow> error \<Rightarrow> error" where
  "msg_failed_to_play n e =
     (case e of Error msg \<Rightarrow>
        Error (''Failed to play video after '' @ string_of_nat n @ '' attempts: '' @ msg))"

definition msg_could_not_start :: "nat \<Rightarrow> error" where
  "msg_could_not_start n =
     Error (''Could not start video playback after '' @ string_of_nat n @ '' attempts'')"

text \<open>
  The retry loop of \<open>playVideo\<close>, from attempt number \<open>attempt\<close> on:
  \<^verbatim>\<open>
  for (let attempt = 1; attempt <= maxAttempts; attempt++) {
    try {
      ...body...
      if (attempt < maxAttempts) { await sleep(1000); }
    } catch (err) {
      if (attempt === maxAttempts) {
        throw new Error(`Failed to play video after ${maxAttempts} attempts: ${err.message}`);
      }
      await sleep(1000);
    }
  }
  throw new Error(`Could not start video playback after ${maxAttempts} attempts`);\<close>
\<close>

function play_loop :: "play_options \<Rightarrow> page \<Rightarrow> nat \<Rightarrow> (error + unit) \<times> event list" where
  "play_loop opts pg attempt =
     (if attempt \<le> maxAttempts opts then
        (case attempt_body opts (pg attempt) of
           (Return, evs) \<Rightarrow> (Inr (), evs)
         | (Retry, evs) \<Rightarrow>
             (let wait = (if attempt < maxAttempts opts then [Sleep 1000] else []);
                  (r, rest) = play_loop opts pg (Suc attempt)
              in (r, evs @ wait @ rest))
         | (Caught e, evs) \<Rightarrow>
             if attempt = maxAttempts opts
             then (Inl (msg_failed_to_play (maxAttempts opts) e), evs)
             else (let (r, rest) = play_loop opts pg (Suc attempt)
                   in (r, evs @ [Sleep 1000] @ rest)))
      else (Inl (msg_could_not_start (maxAttempts opts)), []))"
  by pat_completeness auto
termination
  by (relation "measure (\<lambda>(opts, pg, attempt). Suc (maxAttempts opts) - attempt)") auto

declare play_loop.simps [simp del]

definition playVideo :: "play_options \<Rightarrow> page \<Rightarrow> (error + unit) \<times> event list" where
  "playVideo opts pg = play_loop opts pg 1"

text \<open>
  An attempt succeeds when nothing throws, \<open>video.play()\<close> reports success and the
  element is then seen playing.
\<close>

definition attempt_succeeds :: "attempt \<Rightarrow> bool" where
  "attempt_succeeds a =
     (click a = None \<and> play a = Inr PlaySuccess \<and>
      (case verify a of Inl e \<Rightarrow> False | Inr v \<Rightarrow> isPlaying v))"

text \<open>The first call an attempt makes.\<close>

definition first_call :: "play_options \<Rightarrow> event" where
  "first_call opts = (if clickToPlay opts then VideoClick else VideoPlay)"

text \<open>
  In a trace, every occurrence of the event \<open>a\<close> that is not the very first event comes
  directly after a \<open>Sleep 1000\<close>.
\<close>

fun waits_before :: "event \<Rightarrow> event list \<Rightarrow> bool" where
  "waits_before a [] = True"
| "waits_before a [e] = True"
| "waits_before a (e # e' # es) = ((e' = a \<longrightarrow> e = Sleep 1000) \<and> waits_before a (e' # es))"

text \<open>Pages used as examples: the third attempt succeeds, or none does.\<close>

definition playing_state :: video_state where
  "playing_state = \<lparr>paused = False, ended = False, readyState = 4\<rparr>"

definition good_attempt :: attempt where
  "good_attempt = \<lparr>click = None, play = Inr PlaySuccess, verify = Inr (Some playing_state)\<rparr>"

definition rejected_attempt :: attempt where
  "rejected_attempt =
     \<lparr>click = None, play = Inr (PlayFailure ''NotAllowedError''), verify = Inr None\<rparr>"

definition stalled_attempt :: attempt where
  "stalled_attempt =
     \<lparr>click = None, play = Inr PlaySuccess,
      verify = Inr (Some \<lparr>paused = True, ended = False, readyState = 4\<rparr>)\<rparr>"

definition third_time_page :: page where
  "third_time_page n = (if n = 1 then rejected_attempt else if n = 2 then stalled_attempt else good_attempt)"

definition never_playing_page :: page where
  "never_playing_page n = (if n = 2 then stalled_attempt else rejected_attempt)"

section \<open>Virtual displays\<close>

text \<open>
  \<open>isDisplayInUse(n)\<close> runs \<open>xdpyinfo -display :n\<close> and answers whether it exited with
  code 0, that is, whether some X server is listening on display \<open>n\<close>. A probe is a
  function from display numbers to that answer.

  \<^verbatim>\<open>
  export async function findAvailableDisplay(startDisplay = 99, maxAttempts = 10) {
    for (let i = 0; i < maxAttempts; i++) {
      const displayNum = startDisplay + i;
      const inUse = await isDisplayInUse(displayNum);
      if (!inUse) { return displayNum; }
    }
    throw new Error(`Could not find available display after ${maxAttempts} attempts`);
  }\<close>
\<close>

definition msg_no_display :: "nat \<Rightarrow> error" where
  "msg_no_display n =
     Error (''Could not find available display after '' @ string_of_nat n @ '' attempts'')"

function find_loop :: "(nat \<Rightarrow> bool) \<Rightarrow> nat \<Rightarrow> nat \<Rightarrow> nat \<Rightarrow> error + nat" where
  "find_loop inUse startDisplay max_attempts i =
     (if i < max_attempts then
        (if \<not> inUse (startDisplay + i) then Inr (startDisplay + i)
         else find_loop inUse startDisplay max_attempts (Suc i))
      else Inl (msg_no_display max_attempts))"
  by pat_completeness auto
termination
  by (relation "measure (\<lambda>(inUse, startDisplay, max_attempts, i). max_attempts - i)") auto

declare find_loop.simps [simp del]

definition findAvailableDisplay :: "(nat \<Rightarrow> bool) \<Rightarrow> nat \<Rightarrow> nat \<Rightarrow> error + nat" where
  "findAvailableDisplay inUse startDisplay max_attempts = find_loop inUse startDisplay max_attempts 0"

text \<open>
  The choice of the display number at the head of \<open>startDisplay\<close>:
  \<^verbatim>\<open>
  const inUse = await isDisplayInUse(displayNumber);
  if (inUse) {
    if (autoRetry) { displayNumber = await findAvailableDisplay(displayNumber + 1); }
    else { throw new Error(`Display :${displayNumber} is already in use`); }
  }\<close>
\<close>

definition msg_display_in_use :: "nat \<Rightarrow> error" where
  "msg_display_in_use n = Error (''Display :'' @ string_of_nat n @ '' is already in use'')"

definition choose_display :: "(nat \<Rightarrow> bool) \<Rightarrow> nat \<Rightarrow> bool \<Rightarrow> error + nat" where
  "choose_display inUse displayNumber autoRetry =
     (if inUse displayNumber then
        (if autoRetry then findAvailableDisplay inUse (displayNumber + 1) 10
         else Inl (msg_display_in_use displayNumber))
      else Inr displayNumber)"

text \<open>The value \<open>`:${displayNumber}`\<close> written to \<open>process.env.DISPLAY\<close>.\<close>

definition display_name :: "nat \<Rightarrow> string" where
  "display_name n = CHR '':'' # string_of_nat n"

subsection \<open>Jobs that start and stop displays side by side\<close>

text \<open>
  Jobs run as coroutines of one Node process and share the machine's X displays and the
  process environment. After choosing its number, \<open>startDisplay\<close> spawns \<open>Xvfb\<close>,
  collects what it writes to its standard error in \<open>errorOutput\<close>, and returns a
  promise on which three handlers act:
  \<^verbatim>\<open>
  const cleanup = () => {
    if (readyCheckInterval) clearInterval(readyCheckInterval);
    if (startupTimeout) clearTimeout(startupTimeout);
  };
  xvfbProcess.on('exit', (code, signal) => {
    cleanup();
    if (code !== 0 && code !== null) {
      reject(new Error(`Xvfb exited with code ${code}\nStderr: ${errorOutput}`));
    }
  });
  startupTimeout = setTimeout(() => {
    cleanup();
    xvfbProcess.kill('SIGTERM');
    reject(new Error(`Xvfb startup timeout after 10 seconds\nStderr: ${errorOutput}`));
  }, 10000);
  readyCheckInterval = setInterval(async () => {
    const ready = await isDisplayInUse(displayNumber);
    if (ready) {
      cleanup();
      process.env.DISPLAY = `:${displayNumber}`;
      resolve({ process: xvfbProcess, displayNumber, resolution: screenSpec });
    }
  }, 200);\<close>
  The poll asks whether any server listens on the number, not whether the job's own
  \<open>Xvfb\<close> does. \<open>cleanup()\<close> stops further polls from being started; a poll that is
  already waiting for \<open>isDisplayInUse\<close> still runs to its end, and assigns
  \<open>process.env.DISPLAY\<close> if it finds the display in use, also when the promise has
  been settled meanwhile (settling it again has no effect).

  The \<open>Xvfb\<close> a job has spawned is starting, listening on its display, or has exited,
  with its exit code (\<open>None\<close> is \<open>null\<close>: ended by a signal).
\<close>

datatype xvfb = Starting | Listening | Exited "nat option"

text \<open>
  A job has not called \<open>startDisplay\<close> yet; or its \<open>startDisplay\<close> threw before it
  spawned anything; or it waits for its promise, with the number it chose; or its
  \<open>Xvfb\<close> has exited with code 0 or by a signal, so that polls and timer are stopped and
  the promise is still pending; or it holds the display its \<open>startDisplay\<close> resolved
  with (the flag tells whether its own \<open>Xvfb\<close> is the server listening there); or its
  promise was rejected; or it has called \<open>stopDisplay\<close>. From \<open>Waiting\<close> on, the
  phase carries the number the job's polls ask for.
\<close>

datatype job_phase =
    Idle
  | Refused error
  | Waiting nat xvfb
  | Unwatched nat
  | Holding nat bool
  | StartFailed nat error
  | Stopped nat

record display_world =
  xvfb_installed :: bool
  servers :: "nat set"
  phase :: "nat \<Rightarrow> job_phase"
  env_DISPLAY :: "string option"

text \<open>
  What can happen next. \<open>Begin j n\<close>: job \<open>j\<close> calls \<open>startDisplay(n, resolution, true)\<close>,
  which probes and spawns \<open>Xvfb\<close>. \<open>Bind j code\<close>: the \<open>Xvfb\<close> of job \<open>j\<close> tries to take
  its display; should the display be taken, it exits with \<open>code\<close> (the stock server
  exits with 1). \<open>Ready j\<close>: a poll of job \<open>j\<close> runs to its end. \<open>ExitNoticed j err\<close>:
  the \<open>exit\<close> event of the \<open>Xvfb\<close> is delivered to job \<open>j\<close>, \<open>errorOutput\<close> being
  \<open>err\<close>. \<open>TimedOut j err\<close>: the startup timer of job \<open>j\<close> fires, \<open>errorOutput\<close>
  being \<open>err\<close>. \<open>Stop j\<close>: job \<open>j\<close> calls \<open>stopDisplay\<close>, which terminates its own
  \<open>Xvfb\<close>.
\<close>

datatype display_event =
    Begin nat nat
  | Bind nat "nat option"
  | Ready nat
  | ExitNoticed nat string
  | TimedOut nat string
  | Stop nat

definition msg_xvfb_missing :: error where
  "msg_xvfb_missing = Error ''Xvfb is not installed. Install with: apt-get install xvfb''"

definition msg_xvfb_exited :: "nat \<Rightarrow> string \<Rightarrow> error" where
  "msg_xvfb_exited code err =
     Error (''Xvfb exited with code '' @ string_of_nat code @ [CHR 0x0A] @ ''Stderr: '' @ err)"

definition msg_xvfb_timeout :: "string \<Rightarrow> error" where
  "msg_xvfb_timeout err =
     Error (''Xvfb startup timeout after 10 seconds'' @ [CHR 0x0A] @ ''Stderr: '' @ err)"

definition set_phase :: "nat \<Rightarrow> job_phase \<Rightarrow> display_world \<Rightarrow> display_world" where
  "set_phase j p w = w\<lparr>phase := (phase w)(j := p)\<rparr>"

text \<open>The display number the polls of a job ask for.\<close>

fun polled_phase :: "job_phase \<Rightarrow> nat option" where
  "polled_phase Idle = None"
| "polled_phase (Refused e) = None"
| "polled_phase (Waiting d x) = Some d"
| "polled_phase (Unwatched d) = Some d"
| "polled_phase (Holding d own) = Some d"
| "polled_phase (StartFailed d e) = Some d"
| "polled_phase (Stopped d) = Some d"

definition polled :: "display_world \<Rightarrow> nat \<Rightarrow> nat option" where
  "polled w j = polled_phase (phase w j)"

fun display_step :: "display_world \<Rightarrow> display_event \<Rightarrow> display_world" where
  "display_step w (Begin j n) =
     (case phase w j of
        Idle \<Rightarrow>
          if \<not> xvfb_installed w then set_phase j (Refused msg_xvfb_missing) w
          else (case choose_display (\<lambda>k. k \<in> servers w) n True of
                  Inl e \<Rightarrow> set_phase j (Refused e) w
                | Inr d \<Rightarrow> set_phase j (Waiting d Starting) w)
      | _ \<Rightarrow> w)"
| "display_step w (Bind j code) =
     (case phase w j of
        Waiting d Starting \<Rightarrow>
          if d \<in> servers w then set_phase j (Waiting d (Exited code)) w
          else set_phase j (Waiting d Listening) (w\<lparr>servers := insert d (servers w)\<rparr>)
      | _ \<Rightarrow> w)"
| "display_step w (Ready j) =
     (case phase w j of
        Idle \<Rightarrow> w
      | Refused e \<Rightarrow> w
      | Waiting d x \<Rightarrow>
          if d \<in> servers w
          then set_phase j (Holding d (x = Listening)) (w\<lparr>env_DISPLAY := Some (display_name d)\<rparr>)
          else w
      | Unwatched d \<Rightarrow>
          if d \<in> servers w
          then set_phase j (Holding d False) (w\<lparr>env_DISPLAY := Some (display_name d)\<rparr>)
          else w
      | Holding d own \<Rightarrow>
          if d \<in> servers w then w\<lparr>env_DISPLAY := Some (display_name d)\<rparr> else w
      | StartFailed d e \<Rightarrow>
          if d \<in> servers w then w\<lparr>env_DISPLAY := Some (display_name d)\<rparr> else w
      | Stopped d \<Rightarrow>
          if d \<in> servers w then w\<lparr>env_DISPLAY := Some (display_name d)\<rparr> else w)"
| "display_step w (ExitNoticed j err) =
     (case phase w j of
        Waiting d (Exited code) \<Rightarrow>
          (case code of
             None \<Rightarrow> set_phase j (Unwatched d) w
           | Some c \<Rightarrow>
               if c \<noteq> 0 then set_phase j (StartFailed d (msg_xvfb_exited c err)) w
               else set_phase j (Unwatched d) w)
      | _ \<Rightarrow> w)"
| "display_step w (TimedOut j err) =
     (case phase w j of
        Waiting d x \<Rightarrow>
          set_phase j (StartFailed d (msg_xvfb_timeout err))
            (if x = Listening then w\<lparr>servers := servers w - {d}\<rparr> else w)
      | _ \<Rightarrow> w)"
| "display_step w (Stop j) =
     (case phase w j of
        Holding d own \<Rightarrow>
          set_phase j (Stopped d) (if own then w\<lparr>servers := servers w - {d}\<rparr> else w)
      | _ \<Rightarrow> w)"

definition display_run :: "display_world \<Rightarrow> display_event list \<Rightarrow> display_world" where
  "display_run w evs = foldl display_step w evs"

text \<open>A world in which no job has started yet and the given displays are taken.\<close>

definition fresh_world :: "nat set \<Rightarrow> display_world" where
  "fresh_world taken =
     \<lparr>xvfb_installed = True, servers = taken, phase = (\<lambda>j. Idle), env_DISPLAY = None\<rparr>"

text \<open>The display number an active job holds.\<close>

definition holds :: "display_world \<Rightarrow> nat \<Rightarrow> nat option" where
  "holds w j = (case phase w j of Holding d own \<Rightarrow> Some d | _ \<Rightarrow> None)"

text \<open>
  An allocation that is not interleaved with any other job's: \<open>startDisplay\<close> of job
  \<open>j\<close> probes, its \<open>Xvfb\<close> takes the display, and the next poll sees it, before any
  other job does anything.
\<close>

definition allocate :: "nat \<Rightarrow> nat \<Rightarrow> display_world \<Rightarrow> display_world" where
  "allocate j n w = display_run w [Begin j n, Bind j (Some 1), Ready j]"

datatype serial_event = Allocate nat nat | Release nat

fun serial_step :: "display_world \<Rightarrow> serial_event \<Rightarrow> display_world" where
  "serial_step w (Allocate j n) = allocate j n w"
| "serial_step w (Release j) = display_step w (Stop j)"

definition serial_run :: "display_world \<Rightarrow> serial_event list \<Rightarrow> display_world" where
  "serial_run w evs = foldl serial_step w evs"

section \<open>Audio sinks\<close>

text \<open>
  \<open>createVirtualSink(sinkName)\<close> returns the name it was given and the monitor source
  \<open>`${sinkName}.monitor`\<close>; \<open>setupAudioRecording(sinkName)\<close> passes both on:
  \<^verbatim>\<open>
  const { sinkName: createdSink, monitorName } = await createVirtualSink(sinkName);
  await setDefaultSink(createdSink);
  return { sinkName: createdSink, monitorName };\<close>
  The names do not depend on the outcome of the \<open>pacmd\<close> calls, only whether the call
  returns does.
\<close>

record audio_info =
  sinkName :: string
  monitorName :: string

definition setupAudioRecording :: "string \<Rightarrow> audio_info" where
  "setupAudioRecording name = \<lparr>sinkName = name, monitorName = name @ ''.monitor''\<rparr>"

text \<open>The identifier \<open>recordUrl\<close> derives for a job: \<^verbatim>\<open>const jobId = `job${jobIndex}`;\<close>\<close>

definition jobId :: "nat \<Rightarrow> string" where
  "jobId jobIndex = ''job'' @ string_of_nat jobIndex"

text \<open>
  Modelled from the spec: the sink name that the batch runner of \<open>lib/batch.js\<close>, which
  is not among the sources, passes to \<open>recordUrl\<close> as \<open>sinkName\<close>. The spec:
  "\<open>allocateSink(baseName, jobId, parallel)\<close> derives a collision-free sink name by
  suffixing \<open>baseName\<close> with \<open>jobId\<close> when running under concurrent batch mode, and
  signals via a flag whether this job should also attempt to become the OS-wide default
  audio sink (meaningful only when no sibling job could race for default-sink ownership,
  i.e., concurrency = 1)."
\<close>

definition allocateSink :: "string \<Rightarrow> string \<Rightarrow> bool \<Rightarrow> string \<times> bool" where
  "allocateSink baseName jid concurrent =
     (if concurrent then (baseName @ jid, False) else (baseName, True))"

subsection \<open>What serial allocation maintains\<close>

text \<open>
  With the displays in \<open>taken\<close> used by others: those stay served, no job is left
  waiting, every holder's own server listens on its display, which is none of the
  taken ones, and no two jobs hold the same display.
\<close>

definition serial_inv :: "nat set \<Rightarrow> display_world \<Rightarrow> bool" where
  "serial_inv taken w =
     (taken \<subseteq> servers w
      \<and> (\<forall>j d x. phase w j \<noteq> Waiting d x \<and> phase w j \<noteq> Unwatched d)
      \<and> (\<forall>j d own. phase w j = Holding d own \<longrightarrow> own \<and> d \<in> servers w \<and> d \<notin> taken)
      \<and> (\<forall>i j d oi oj. i \<noteq> j \<and> phase w i = Holding d oi \<longrightarrow> phase w j \<noteq> Holding d oj))"

text \<open>Example schedules.\<close>

definition example_schedule :: "serial_event list" where
  "example_schedule = [Allocate 0 99, Allocate 1 99, Release 0, Allocate 2 99]"

definition two_jobs_world :: display_world where
  "two_jobs_world =
     display_run (fresh_world {}) [Begin 0 99, Bind 0 (Some 1), Ready 0, Begin 1 99, Bind 1 (Some 1)]"
section \<open>One recording job\<close>

text \<open>The options of \<open>recordUrl\<close> that decide its control flow.\<close>

record record_options =
  opt_url :: string
  opt_outputPath :: string
  opt_parallelMode :: bool
  opt_displayStartNumber :: nat
  opt_sinkName :: string
  opt_duration :: "jsnum option"
  opt_bufferTime :: jsnum
  opt_clickSelectors :: "string list"
  opt_autoDetectDuration :: bool

text \<open>
  What the external collaborators answer when the job calls them. A call into the
  browser, the audio daemon or the display server returns, with a value or with a thrown
  error. \<open>clickIfExists\<close> and \<open>setFullscreen\<close> catch their own errors and never
  throw. \<open>closeBrowser\<close> and \<open>cleanupAudioRecording\<close> wrap their work in
  \<open>try\<close>/\<open>catch\<close>; \<open>browser_close_throws\<close> and \<open>removeVirtualSink_throws\<close> say what
  that inner work throws. Whether \<open>stopRecording\<close> returns is decided by its code
  (\<^const>\<open>stopRecording\<close>) and the capture process; \<open>capture_exits_later\<close> says
  whether a capture process that has outlived the grace period exits later on, which
  settles a promise that the timer left pending.
\<close>

record display_info =
  displayNumber :: nat
  xvfbProcess :: child_process

record collaborators =
  startDisplay_returns :: "error + display_info"
  setupAudioRecording_throws :: "error option"
  launchBrowser_throws :: "error option"
  browser_process_pid :: "nat option"
  createPage_throws :: "error option"
  navigateToUrl_throws :: "error option"
  findVideoElement_throws :: "error option"
  getVideoMetadata_returns :: "error + jsnum"
  startRecording_returns :: "error + child_process"
  page_behaviour :: page
  moveBrowserSinkInputs_throws :: "error option"
  browser_close_throws :: "error option"
  removeVirtualSink_throws :: "error option"
  capture_exits_later :: bool

text \<open>
  The variables of \<open>recordUrl\<close> that outlive a statement:
  \<^verbatim>\<open>let displayInfo, audioInfo, ffmpegProcess, browser;\<close>
  (\<open>None\<close> is \<open>undefined\<close> or \<open>null\<close>), the metadata's duration, \<open>totalTime\<close>, and the
  trace of calls made so far.
\<close>

record job_vars =
  displayInfo :: "display_info option"
  audioInfo :: "audio_info option"
  ffmpegProcess :: "child_process option"
  browser :: "nat option option"
  videoMetadata_duration :: jsnum
  totalTime :: jsnum
  trace :: "event list"

definition initial_vars :: job_vars where
  "initial_vars =
     \<lparr>displayInfo = None, audioInfo = None, ffmpegProcess = None, browser = None,
      videoMetadata_duration = NaN, totalTime = NaN, trace = []\<rparr>"

definition log_call :: "event \<Rightarrow> job_vars \<Rightarrow> job_vars" where
  "log_call e v = v\<lparr>trace := trace v @ [e]\<rparr>"

definition log_calls :: "event list \<Rightarrow> job_vars \<Rightarrow> job_vars" where
  "log_calls es v = v\<lparr>trace := trace v @ es\<rparr>"

text \<open>
  How a statement of the \<open>try\<close> block ends: control continues with the next
  statement, an error is thrown, or the statement never finishes.
\<close>

datatype outcome = Continue | Throw error | Diverge

type_synonym stage = "job_vars \<Rightarrow> outcome \<times> job_vars"

text \<open>Statements in sequence: the first that does not continue ends the block.\<close>

fun run_stages :: "stage list \<Rightarrow> job_vars \<Rightarrow> outcome \<times> job_vars" where
  "run_stages [] v = (Continue, v)"
| "run_stages (s # ss) v =
     (case s v of
        (Continue, v') \<Rightarrow> run_stages ss v'
      | (Throw e, v') \<Rightarrow> (Throw e, v')
      | (Diverge, v') \<Rightarrow> (Diverge, v'))"

text \<open>A call that returns nothing of interest: it is logged, and throws or not.\<close>

definition call :: "event \<Rightarrow> error option \<Rightarrow> stage" where
  "call e thrown v =
     (case thrown of
        Some err \<Rightarrow> (Throw err, log_call e v)
      | None \<Rightarrow> (Continue, log_call e v))"

text \<open>\<^verbatim>\<open>displayInfo = await startDisplay(displayStartNumber, resolution + 'x24', true);\<close>\<close>

definition stage_startDisplay :: "collaborators \<Rightarrow> stage" where
  "stage_startDisplay w v =
     (case startDisplay_returns w of
        Inl err \<Rightarrow> (Throw err, log_call StartDisplay v)
      | Inr di \<Rightarrow> (Continue, (log_call StartDisplay v)\<lparr>displayInfo := Some di\<rparr>))"

text \<open>\<^verbatim>\<open>audioInfo = await setupAudioRecording(sinkName, { skipDefault: parallelMode });\<close>\<close>

definition stage_setupAudio :: "record_options \<Rightarrow> collaborators \<Rightarrow> stage" where
  "stage_setupAudio opts w v =
     (case setupAudioRecording_throws w of
        Some err \<Rightarrow> (Throw err, log_call SetupAudio v)
      | None \<Rightarrow>
          (Continue, (log_call SetupAudio v)\<lparr>audioInfo := Some (setupAudioRecording (opt_sinkName opts))\<rparr>))"

text \<open>\<^verbatim>\<open>browser = await launchBrowser(displayInfo.displayNumber, {...});\<close>\<close>

definition stage_launchBrowser :: "collaborators \<Rightarrow> stage" where
  "stage_launchBrowser w v =
     (case launchBrowser_throws w of
        Some err \<Rightarrow> (Throw err, log_call LaunchBrowser v)
      | None \<Rightarrow> (Continue, (log_call LaunchBrowser v)\<lparr>browser := Some (browser_process_pid w)\<rparr>))"

text \<open>
  \<^verbatim>\<open>
  for (const sel of clickSelectors) {
    await clickIfExists(page, sel);
    await sleep(500);
  }\<close>
\<close>

definition stage_clickSelectors :: "record_options \<Rightarrow> stage" where
  "stage_clickSelectors opts v =
     (Continue, log_calls (concat (map (\<lambda>sel. [ClickIfExists sel, Sleep 500]) (opt_clickSelectors opts))) v)"

text \<open>\<^verbatim>\<open>const videoMetadata = await getVideoMetadata(page, videoSelector);\<close>\<close>

definition stage_getVideoMetadata :: "collaborators \<Rightarrow> stage" where
  "stage_getVideoMetadata w v =
     (case getVideoMetadata_returns w of
        Inl err \<Rightarrow> (Throw err, log_call GetMetadata v)
      | Inr d \<Rightarrow> (Continue, (log_call GetMetadata v)\<lparr>videoMetadata_duration := d\<rparr>))"

text \<open>
  The sum \<open>actualDuration + bufferTime\<close>: the exact sum of two finite doubles,
  rounded. An \<open>undefined\<close> operand makes it \<open>NaN\<close>.
\<close>

fun js_add :: "jsnum \<Rightarrow> jsnum \<Rightarrow> jsnum" where
  "js_add (Number x) (Number y) = to_double (x + y)"
| "js_add NaN b = NaN"
| "js_add a NaN = NaN"
| "js_add PosInf NegInf = NaN"
| "js_add NegInf PosInf = NaN"
| "js_add PosInf b = PosInf"
| "js_add a PosInf = PosInf"
| "js_add NegInf b = NegInf"
| "js_add a NegInf = NegInf"

definition js_add_opt :: "jsnum option \<Rightarrow> jsnum \<Rightarrow> jsnum" where
  "js_add_opt a b = (case a of None \<Rightarrow> NaN | Some x \<Rightarrow> js_add x b)"

text \<open>
  The duration block (see \<^const>\<open>actualDuration_recordUrl\<close>), followed by
  \<^verbatim>\<open>const totalTime = actualDuration + bufferTime;\<close>
\<close>

definition stage_duration :: "record_options \<Rightarrow> stage" where
  "stage_duration opts v =
     (case actualDuration_recordUrl (opt_autoDetectDuration opts) (videoMetadata_duration v)
             (opt_duration opts) of
        Inl err \<Rightarrow> (Throw err, v)
      | Inr actualDuration \<Rightarrow>
          (Continue, v\<lparr>totalTime := js_add_opt actualDuration (opt_bufferTime opts)\<rparr>))"

text \<open>
  \<^verbatim>\<open>
  ffmpegProcess = await startRecording({...});
  await sleep(1000);\<close>
\<close>

definition stage_startRecording :: "collaborators \<Rightarrow> stage" where
  "stage_startRecording w v =
     (case startRecording_returns w of
        Inl err \<Rightarrow> (Throw err, log_call StartRecording v)
      | Inr p \<Rightarrow>
          (Continue, (log_calls [StartRecording, Sleep 1000] v)\<lparr>ffmpegProcess := Some p\<rparr>))"

text \<open>\<^verbatim>\<open>await playVideo(page, videoSelector);\<close>\<close>

definition stage_playVideo :: "collaborators \<Rightarrow> stage" where
  "stage_playVideo w v =
     (case playVideo default_play_options (page_behaviour w) of
        (Inl err, evs) \<Rightarrow> (Throw err, log_calls evs v)
      | (Inr u, evs) \<Rightarrow> (Continue, log_calls evs v))"

text \<open>
  \<^verbatim>\<open>
  if (parallelMode && browser.process()) {
    const browserPid = browser.process().pid;
    await moveBrowserSinkInputs(sinkName, browserPid);
  }\<close>
\<close>

definition stage_routeAudio :: "record_options \<Rightarrow> collaborators \<Rightarrow> stage" where
  "stage_routeAudio opts w v =
     (if opt_parallelMode opts \<and> browser v \<noteq> None \<and> browser v \<noteq> Some None
      then call MoveSinkInputs (moveBrowserSinkInputs_throws w) v
      else (Continue, v))"

text \<open>
  \<^verbatim>\<open>for (let i = 1; i <= totalTime; i++) { await sleep(1000); ... }\<close>
  The number of iterations: none when \<open>totalTime\<close> is \<open>NaN\<close> or below 1. There is no
  end when \<open>totalTime\<close> is \<open>Infinity\<close>, nor when it is \<open>2 ^ 53\<close> or more: the counter
  is a double, and \<open>i++\<close> leaves \<open>2 ^ 53\<close> as it is.
\<close>

fun wait_iterations :: "jsnum \<Rightarrow> nat option" where
  "wait_iterations (Number x) = (if x < 2 ^ 53 then Some (nat \<lfloor>x\<rfloor>) else None)"
| "wait_iterations NaN = Some 0"
| "wait_iterations NegInf = Some 0"
| "wait_iterations PosInf = None"

definition stage_wait :: stage where
  "stage_wait v =
     (case wait_iterations (totalTime v) of
        None \<Rightarrow> (Diverge, v)
      | Some n \<Rightarrow> (Continue, log_calls (replicate n (Sleep 1000)) v))"

text \<open>
  The teardown calls. \<open>stopRecording\<close> and \<open>stopDisplay\<close> return promises that are
  never rejected; \<open>closeBrowser\<close> and \<open>cleanupAudioRecording\<close> catch what their inner
  call throws:
  \<^verbatim>\<open>
  try { await browser.close(); log('Browser closed successfully'); }
  catch (err) { log(`Error closing browser: ${err.message}`); }\<close>
  None of them throws to its caller. The promise of \<open>stopDisplay\<close> is resolved by its
  timer at the latest. That of \<open>stopRecording\<close> is resolved at once for a missing
  process, and otherwise when \<^const>\<open>stopRecording\<close> resolves it or the process
  exits later; else the \<open>await\<close> never returns.
\<close>

definition stopRecording_returns :: "collaborators \<Rightarrow> child_process option \<Rightarrow> bool" where
  "stopRecording_returns w po =
     (case po of
        None \<Rightarrow> True
      | Some p \<Rightarrow> resolved (stopRecording p) \<noteq> NotResolved \<or> capture_exits_later w)"

definition caught_and_logged :: "error option \<Rightarrow> error option" where
  "caught_and_logged thrown = (case thrown of Some err \<Rightarrow> None | None \<Rightarrow> None)"

definition closeBrowser_throws :: "collaborators \<Rightarrow> error option" where
  "closeBrowser_throws w = caught_and_logged (browser_close_throws w)"

definition cleanupAudioRecording_throws :: "collaborators \<Rightarrow> error option" where
  "cleanupAudioRecording_throws w = caught_and_logged (removeVirtualSink_throws w)"

text \<open>
  The graceful shutdown at the end of the \<open>try\<close> block:
  \<^verbatim>\<open>
  await stopRecording(ffmpegProcess, 15000);  ffmpegProcess = null;
  await closeBrowser(browser);                browser = null;
  await stopDisplay(displayInfo);             displayInfo = null;
  await cleanupAudioRecording(audioInfo.sinkName);  audioInfo = null;\<close>
\<close>

definition stage_stopRecording :: "collaborators \<Rightarrow> stage" where
  "stage_stopRecording w v =
     (if stopRecording_returns w (ffmpegProcess v)
      then (Continue, (log_call (StopRecording 15000) v)\<lparr>ffmpegProcess := None\<rparr>)
      else (Diverge, log_call (StopRecording 15000) v))"

definition stage_closeBrowser :: "collaborators \<Rightarrow> stage" where
  "stage_closeBrowser w v =
     (case closeBrowser_throws w of
        Some err \<Rightarrow> (Throw err, log_call CloseBrowser v)
      | None \<Rightarrow> (Continue, (log_call CloseBrowser v)\<lparr>browser := None\<rparr>))"

definition stage_stopDisplay :: stage where
  "stage_stopDisplay v = (Continue, (log_call StopDisplay v)\<lparr>displayInfo := None\<rparr>)"

definition stage_cleanupAudio :: "collaborators \<Rightarrow> stage" where
  "stage_cleanupAudio w v =
     (case cleanupAudioRecording_throws w of
        Some err \<Rightarrow> (Throw err, log_call CleanupAudio v)
      | None \<Rightarrow> (Continue, (log_call CleanupAudio v)\<lparr>audioInfo := None\<rparr>))"

text \<open>The \<open>try\<close> block of \<open>recordUrl\<close>, statement by statement.\<close>

definition recordUrl_try :: "record_options \<Rightarrow> collaborators \<Rightarrow> outcome \<times> job_vars" where
  "recordUrl_try opts w =
     run_stages
       [stage_startDisplay w,
        stage_setupAudio opts w,
        stage_launchBrowser w,
        call CreatePage (createPage_throws w),
        call Navigate (navigateToUrl_throws w),
        call SetFullscreen None,
        call FindVideo (findVideoElement_throws w),
        stage_clickSelectors opts,
        stage_getVideoMetadata w,
        stage_duration opts,
        stage_startRecording w,
        stage_playVideo w,
        stage_routeAudio opts w,
        stage_wait,
        stage_stopRecording w,
        stage_closeBrowser w,
        stage_stopDisplay,
        stage_cleanupAudio w]
       initial_vars"

text \<open>
  The emergency cleanup of the \<open>catch\<close> block. Each call is wrapped in
  \<open>.catch(() => {})\<close> and the whole in \<open>try\<close>/\<open>catch\<close>, so whatever a call throws is
  dropped; a call that never returns keeps the later ones from being made:
  \<^verbatim>\<open>
  try {
    if (ffmpegProcess) { await stopRecording(ffmpegProcess, 5000).catch(() => {}); }
    if (browser) { await closeBrowser(browser).catch(() => {}); }
    if (displayInfo) { await stopDisplay(displayInfo).catch(() => {}); }
    if (audioInfo) { await cleanupAudioRecording(audioInfo.sinkName).catch(() => {}); }
  } catch (_) { }\<close>
\<close>

definition call_swallowed :: "event \<Rightarrow> error option \<Rightarrow> job_vars \<Rightarrow> job_vars" where
  "call_swallowed e thrown v = (case thrown of Some err \<Rightarrow> log_call e v | None \<Rightarrow> log_call e v)"

definition emergency_stopRecording :: "collaborators \<Rightarrow> stage" where
  "emergency_stopRecording w v =
     (if ffmpegProcess v \<noteq> None
      then (if stopRecording_returns w (ffmpegProcess v)
            then (Continue, call_swallowed (StopRecording 5000) None v)
            else (Diverge, log_call (StopRecording 5000) v))
      else (Continue, v))"

definition emergency_closeBrowser :: "collaborators \<Rightarrow> stage" where
  "emergency_closeBrowser w v =
     (if browser v \<noteq> None
      then (Continue, call_swallowed CloseBrowser (closeBrowser_throws w) v)
      else (Continue, v))"

definition emergency_stopDisplay :: stage where
  "emergency_stopDisplay v =
     (if displayInfo v \<noteq> None
      then (Continue, call_swallowed StopDisplay None v)
      else (Continue, v))"

definition emergency_cleanupAudio :: "collaborators \<Rightarrow> stage" where
  "emergency_cleanupAudio w v =
     (if audioInfo v \<noteq> None
      then (Continue, call_swallowed CleanupAudio (cleanupAudioRecording_throws w) v)
      else (Continue, v))"

definition emergency_cleanup :: "collaborators \<Rightarrow> job_vars \<Rightarrow> outcome \<times> job_vars" where
  "emergency_cleanup w v =
     run_stages
       [emergency_stopRecording w,
        emergency_closeBrowser w,
        emergency_stopDisplay,
        emergency_cleanupAudio w]
       v"

text \<open>The record a job resolves with: \<open>{ success, outputPath, error }\<close>.\<close>

record job_result =
  success :: bool
  result_outputPath :: string
  result_error :: "string option"

definition message :: "error \<Rightarrow> string" where
  "message e = (case e of Error msg \<Rightarrow> msg)"

text \<open>How a call of \<open>recordUrl\<close> ends: its promise resolves with a record, or never settles.\<close>

datatype job_end = Resolved job_result | NeverSettles

definition msg_duration_args :: string where
  "msg_duration_args =
     ''Either --duration must be provided or --auto-detect-duration must be enabled''"

text \<open>
  \<^verbatim>\<open>
  async function recordUrl(options) {
    if (!duration && !autoDetectDuration) {
      return { success: false, outputPath, error: 'Either --duration must be ...' };
    }
    let displayInfo, audioInfo, ffmpegProcess, browser;
    try {
      ...
      return { success: true, outputPath };
    } catch (error) {
      ...emergency cleanup...
      return { success: false, outputPath, error: error.message };
    }
  }\<close>
\<close>

definition recordUrl :: "record_options \<Rightarrow> collaborators \<Rightarrow> job_end \<times> event list" where
  "recordUrl opts w =
     (if duration_args_rejected (opt_duration opts) (opt_autoDetectDuration opts)
      then (Resolved \<lparr>success = False, result_outputPath = opt_outputPath opts,
                      result_error = Some msg_duration_args\<rparr>, [])
      else
        (case recordUrl_try opts w of
           (Continue, v) \<Rightarrow>
             (Resolved \<lparr>success = True, result_outputPath = opt_outputPath opts,
                        result_error = None\<rparr>, trace v)
         | (Throw err, v) \<Rightarrow>
             (case emergency_cleanup w v of
                (Diverge, v') \<Rightarrow> (NeverSettles, trace v')
              | (Continue, v') \<Rightarrow>
                  (Resolved \<lparr>success = False, result_outputPath = opt_outputPath opts,
                             result_error = Some (message err)\<rparr>, trace v')
              | (Throw inner, v') \<Rightarrow>
                  (Resolved \<lparr>success = False, result_outputPath = opt_outputPath opts,
                             result_error = Some (message err)\<rparr>, trace v'))
         | (Diverge, v) \<Rightarrow> (NeverSettles, trace v)))"

text \<open>The calls that release a resource, and the calls of the playback action.\<close>

fun is_release :: "event \<Rightarrow> bool" where
  "is_release (StopRecording g) = True"
| "is_release CloseBrowser = True"
| "is_release StopDisplay = True"
| "is_release CleanupAudio = True"
| "is_release e = False"

fun is_playback :: "event \<Rightarrow> bool" where
  "is_playback VideoClick = True"
| "is_playback VideoPlay = True"
| "is_playback e = False"

text \<open>
  Which resources a job has acquired, read off the collaborators' answers: each is
  acquired when every statement up to and including its acquiring call succeeds.
\<close>

definition acquired_display :: "collaborators \<Rightarrow> bool" where
  "acquired_display w = (\<not> isl (startDisplay_returns w))"

definition acquired_audio :: "collaborators \<Rightarrow> bool" where
  "acquired_audio w = (acquired_display w \<and> setupAudioRecording_throws w = None)"

definition acquired_browser :: "collaborators \<Rightarrow> bool" where
  "acquired_browser w = (acquired_audio w \<and> launchBrowser_throws w = None)"

definition acquired_capture :: "record_options \<Rightarrow> collaborators \<Rightarrow> bool" where
  "acquired_capture opts w =
     (acquired_browser w
      \<and> createPage_throws w = None \<and> navigateToUrl_throws w = None
      \<and> findVideoElement_throws w = None
      \<and> (case getVideoMetadata_returns w of
            Inl err \<Rightarrow> False
          | Inr d \<Rightarrow>
              \<not> isl (actualDuration_recordUrl (opt_autoDetectDuration opts) d (opt_duration opts)))
      \<and> \<not> isl (startRecording_returns w))"

text \<open>The release calls the emergency cleanup owes for what was acquired, in its order.\<close>

definition releases_owed :: "record_options \<Rightarrow> collaborators \<Rightarrow> event list" where
  "releases_owed opts w =
     (if acquired_capture opts w then [StopRecording 5000] else [])
     @ (if acquired_browser w then [CloseBrowser] else [])
     @ (if acquired_display w then [StopDisplay] else [])
     @ (if acquired_audio w then [CleanupAudio] else [])"

subsection \<open>Reasoning about a sequence of statements\<close>

text \<open>
  A statement started in a state satisfying \<open>P\<close> leaves a state satisfying \<open>Q\<close> when it
  continues, one satisfying \<open>E\<close> when it throws and one satisfying \<open>D\<close> when it never
  finishes; likewise for a sequence.
\<close>

definition stage_triple ::
  "(job_vars \<Rightarrow> bool) \<Rightarrow> stage \<Rightarrow> (job_vars \<Rightarrow> bool) \<Rightarrow> (job_vars \<Rightarrow> bool)
     \<Rightarrow> (job_vars \<Rightarrow> bool) \<Rightarrow> bool" where
  "stage_triple P s Q E D =
     (\<forall>v. P v \<longrightarrow>
        (case s v of
           (Continue, v') \<Rightarrow> Q v'
         | (Throw e, v') \<Rightarrow> E v'
         | (Diverge, v') \<Rightarrow> D v'))"

definition stages_triple ::
  "(job_vars \<Rightarrow> bool) \<Rightarrow> stage list \<Rightarrow> (job_vars \<Rightarrow> bool) \<Rightarrow> (job_vars \<Rightarrow> bool)
     \<Rightarrow> (job_vars \<Rightarrow> bool) \<Rightarrow> bool" where
  "stages_triple P ss Q E D =
     (\<forall>v. P v \<longrightarrow>
        (case run_stages ss v of
           (Continue, v') \<Rightarrow> Q v'
         | (Throw e, v') \<Rightarrow> E v'
         | (Diverge, v') \<Rightarrow> D v'))"

text \<open>No release call has been made so far.\<close>

definition no_release :: "job_vars \<Rightarrow> bool" where
  "no_release v = (filter is_release (trace v) = [])"

text \<open>
  The four variables say exactly which resources the collaborators' answers make
  acquired, and nothing has been released.
\<close>

definition vars_match :: "record_options \<Rightarrow> collaborators \<Rightarrow> job_vars \<Rightarrow> bool" where
  "vars_match opts w v =
     ((ffmpegProcess v \<noteq> None) = acquired_capture opts w
      \<and> (\<forall>p. ffmpegProcess v = Some p \<longrightarrow> startRecording_returns w = Inr p)
      \<and> (browser v \<noteq> None) = acquired_browser w
      \<and> (displayInfo v \<noteq> None) = acquired_display w
      \<and> (audioInfo v \<noteq> None) = acquired_audio w
      \<and> no_release v)"

text \<open>How far the job has come: which variables are set, and what is known of the answers.\<close>

definition at_start :: "job_vars \<Rightarrow> bool" where
  "at_start v =
     (displayInfo v = None \<and> audioInfo v = None \<and> browser v = None \<and> ffmpegProcess v = None
      \<and> no_release v)"

definition has_display :: "collaborators \<Rightarrow> job_vars \<Rightarrow> bool" where
  "has_display w v =
     (displayInfo v \<noteq> None \<and> audioInfo v = None \<and> browser v = None \<and> ffmpegProcess v = None
      \<and> no_release v \<and> acquired_display w)"

definition has_audio :: "collaborators \<Rightarrow> job_vars \<Rightarrow> bool" where
  "has_audio w v =
     (displayInfo v \<noteq> None \<and> audioInfo v \<noteq> None \<and> browser v = None \<and> ffmpegProcess v = None
      \<and> no_release v \<and> acquired_audio w)"

definition has_browser :: "collaborators \<Rightarrow> job_vars \<Rightarrow> bool" where
  "has_browser w v =
     (displayInfo v \<noteq> None \<and> audioInfo v \<noteq> None \<and> browser v \<noteq> None \<and> ffmpegProcess v = None
      \<and> no_release v \<and> acquired_browser w)"

definition has_capture :: "record_options \<Rightarrow> collaborators \<Rightarrow> job_vars \<Rightarrow> bool" where
  "has_capture opts w v =
     (displayInfo v \<noteq> None \<and> audioInfo v \<noteq> None \<and> browser v \<noteq> None
      \<and> (\<exists>p. ffmpegProcess v = Some p \<and> startRecording_returns w = Inr p)
      \<and> no_release v \<and> acquired_capture opts w)"

text \<open>The capture process the job is given, if any, is one whose \<open>stopRecording\<close> returns.\<close>

definition capture_stops :: "collaborators \<Rightarrow> bool" where
  "capture_stops w =
     (case startRecording_returns w of
        Inl err \<Rightarrow> True
      | Inr p \<Rightarrow> stopRecording_returns w (Some p))"

definition page_ready :: "collaborators \<Rightarrow> bool" where
  "page_ready w = (createPage_throws w = None \<and> navigateToUrl_throws w = None
          \<and> findVideoElement_throws w = None)"

section \<open>The single-job entry point of \<open>record.js\<close>\<close>

text \<open>
  The \<open>try\<close> block of \<open>main\<close> in \<open>record.js\<close>, which starts the capture before it
  launches the browser, and plays the video inside \<open>findAndPlayVideo\<close>:
  \<^verbatim>\<open>
  displayInfo = await startDisplay(argv.display, argv.resolution + 'x24', true);
  cleanup.trackProcess('xvfb', displayInfo.process);
  audioInfo = await setupAudioRecording('recording_sink');
  cleanup.registerCleanupHandler(async () => { await cleanupAudioRecording(audioInfo.sinkName); });
  ffmpegProcess = await startRecording({...});
  cleanup.trackProcess('ffmpeg', ffmpegProcess);
  await sleep(2000);
  browser = await launchBrowser(displayInfo.displayNumber, {...});
  const page = await createPage(browser, {...});
  await navigateToUrl(page, argv.url, {...});
  const videoMetadata = await findAndPlayVideo(page, {...});
  ...duration...
  for (let i = 1; i <= totalTime; i++) { await sleep(1000); ... }
  await stopRecording(ffmpegProcess, 10000);
  cleanup.untrackProcess('ffmpeg');
  await closeBrowser(browser);
  await stopDisplay(displayInfo);
  cleanup.untrackProcess('xvfb');
  await cleanupAudioRecording(audioInfo.sinkName);\<close>
  where \<open>findAndPlayVideo\<close> is
  \<^verbatim>\<open>
  const videoElement = await findVideoElement(page, videoSelector);
  for (const selector of clickSelectors) { await clickIfExists(page, selector); await sleep(500); }
  const metadata = await getVideoMetadata(page, videoSelector);
  await playVideo(page, videoSelector);
  return { ...metadata, autoDetectedDuration: ... };\<close>
\<close>

definition stage_setupAudio_main :: "collaborators \<Rightarrow> stage" where
  "stage_setupAudio_main w v =
     (case setupAudioRecording_throws w of
        Some err \<Rightarrow> (Throw err, log_call SetupAudio v)
      | None \<Rightarrow>
          (Continue, (log_call SetupAudio v)\<lparr>audioInfo := Some (setupAudioRecording ''recording_sink'')\<rparr>))"

definition stage_startRecording_main :: "collaborators \<Rightarrow> stage" where
  "stage_startRecording_main w v =
     (case startRecording_returns w of
        Inl err \<Rightarrow> (Throw err, log_call StartRecording v)
      | Inr p \<Rightarrow> (Continue, (log_call StartRecording v)\<lparr>ffmpegProcess := Some p\<rparr>))"

definition stage_duration_main :: "record_options \<Rightarrow> stage" where
  "stage_duration_main opts v =
     (case actualDuration_main (opt_autoDetectDuration opts) (videoMetadata_duration v)
             (opt_duration opts) of
        Inl err \<Rightarrow> (Throw err, v)
      | Inr actualDuration \<Rightarrow>
          (Continue, v\<lparr>totalTime := js_add_opt actualDuration (opt_bufferTime opts)\<rparr>))"

definition stage_stopRecording_main :: "collaborators \<Rightarrow> stage" where
  "stage_stopRecording_main w v =
     (if stopRecording_returns w (ffmpegProcess v)
      then (Continue, log_call (StopRecording 10000) v)
      else (Diverge, log_call (StopRecording 10000) v))"

definition main_try :: "record_options \<Rightarrow> collaborators \<Rightarrow> outcome \<times> job_vars" where
  "main_try opts w =
     run_stages
       [stage_startDisplay w,
        call (TrackProcess ''xvfb'') None,
        stage_setupAudio_main w,
        call RegisterCleanupHandler None,
        stage_startRecording_main w,
        call (TrackProcess ''ffmpeg'') None,
        call (Sleep 2000) None,
        stage_launchBrowser w,
        call CreatePage (createPage_throws w),
        call Navigate (navigateToUrl_throws w),
        call FindVideo (findVideoElement_throws w),
        stage_clickSelectors opts,
        stage_getVideoMetadata w,
        stage_playVideo w,
        stage_duration_main opts,
        stage_wait,
        stage_stopRecording_main w,
        call (UntrackProcess ''ffmpeg'') None,
        call CloseBrowser (closeBrowser_throws w),
        call StopDisplay None,
        call (UntrackProcess ''xvfb'') None,
        call CleanupAudio (cleanupAudioRecording_throws w)]
       initial_vars"

subsection \<open>Order of capture and playback in a trace\<close>

text \<open>No playback call stands before the first \<open>StartRecording\<close> of the trace.\<close>

definition no_playback_before_capture :: "event list \<Rightarrow> bool" where
  "no_playback_before_capture tr =
     (\<forall>e\<in>set (takeWhile (\<lambda>e. e \<noteq> StartRecording) tr). \<not> is_playback e)"

text \<open>A trace in which the capture has not been started and nothing was played.\<close>

definition before_capture :: "event list \<Rightarrow> bool" where
  "before_capture tr = (\<forall>e\<in>set tr. \<not> is_playback e \<and> e \<noteq> StartRecording)"

text \<open>
  A trace that consists of a part before the capture, then the given calls that start
  the capture and let it settle, then anything.
\<close>

definition settled :: "event list \<Rightarrow> event list \<Rightarrow> bool" where
  "settled start tr = (\<exists>pre post. tr = pre @ start @ post \<and> before_capture pre)"

definition settled_and_played :: "event list \<Rightarrow> event list \<Rightarrow> bool" where
  "settled_and_played start tr =
     (\<exists>pre post. tr = pre @ start @ post \<and> before_capture pre \<and> VideoPlay \<in> set post)"

text \<open>A statement that only adds calls to the trace, and one whose calls are neither
  playback nor the start of the capture.\<close>

definition appends :: "stage \<Rightarrow> bool" where
  "appends s = (\<forall>v. \<exists>es. trace (snd (s v)) = trace v @ es)"

definition quiet :: "stage \<Rightarrow> bool" where
  "quiet s = (\<forall>v. \<exists>es. trace (snd (s v)) = trace v @ es \<and> before_capture es)"

text \<open>Worlds and options used as examples.\<close>

definition default_options :: record_options where
  "default_options =
     \<lparr>opt_url = ''https://example.com/video'', opt_outputPath = ''recording.mp4'',
      opt_parallelMode = False, opt_displayStartNumber = 99,
      opt_sinkName = ''recording_sink'', opt_duration = None, opt_bufferTime = Number 2,
      opt_clickSelectors = [''#consent''], opt_autoDetectDuration = True\<rparr>"

definition cooperative_world :: collaborators where
  "cooperative_world =
     \<lparr>startDisplay_returns = Inr \<lparr>displayNumber = 99, xvfbProcess = live_process\<rparr>,
      setupAudioRecording_throws = None,
      launchBrowser_throws = None,
      browser_process_pid = Some 2002,
      createPage_throws = None,
      navigateToUrl_throws = None,
      findVideoElement_throws = None,
      getVideoMetadata_returns = Inr (Number (7 / 2)),
      startRecording_returns = Inr live_process,
      page_behaviour = (\<lambda>n. good_attempt),
      moveBrowserSinkInputs_throws = None,
      browser_close_throws = Some (Error ''Target closed''),
      removeVirtualSink_throws = None,
      capture_exits_later = False\<rparr>"

definition launch_failure_world :: collaborators where
  "launch_failure_world =
     cooperative_world\<lparr>launchBrowser_throws := Some (Error ''Failed to launch browser: no display'')\<rparr>"

definition playback_failure_world :: collaborators where
  "playback_failure_world = cooperative_world\<lparr>page_behaviour := never_playing_page\<rparr>"

text \<open>
  The playback fails as before, and the capture process is one that does not exit when
  it is interrupted.
\<close>

definition stubborn_capture_world :: collaborators where
  "stubborn_capture_world =
     playback_failure_world\<lparr>startRecording_returns := Inr stubborn_process\<rparr>"

text \<open>A job asked to record without end: \<open>--no-auto-detect-duration --duration Infinity\<close>.\<close>

definition endless_options :: record_options where
  "endless_options =
     default_options\<lparr>opt_duration := Some PosInf, opt_autoDetectDuration := False\<rparr>"

section \<open>Batch runs\<close>

text \<open>
  How the execution of one job ends, as the batch runner sees it: the job function
  returns a result record, or raises. A job is given as \<open>Some\<close> of that, or as \<open>None\<close>
  when its promise never settles.
\<close>

datatype job_outcome = Returns job_result | Raises error

text \<open>
  Modelled from the spec: the batch runners \<open>runSequential\<close> and \<open>runParallel\<close> of
  \<open>lib/batch.js\<close>, which \<open>record.js\<close> imports and which are not among the sources.
  The spec: "A single job's failure is captured as a \<open>BatchResult\<close> and does not
  cancel sibling jobs or the overall run": a job that raises yields an unsuccessful
  result with the error's description.
\<close>

definition capture_outcome :: "string \<Rightarrow> job_outcome \<Rightarrow> job_result" where
  "capture_outcome path out =
     (case out of
        Returns r \<Rightarrow> r
      | Raises e \<Rightarrow> \<lparr>success = False, result_outputPath = path, result_error = Some (message e)\<rparr>)"

text \<open>
  Modelled from the spec: "When K = 1, jobs run one at a time preserving URL list order
  end-to-end." Jobs are numbered by their position in the URL list; \<open>path i\<close> is the
  output path planned for job \<open>i\<close> and \<open>job i\<close> is how its execution ends. The runner
  waits for each job in turn, so a job that never settles keeps it from returning
  (\<open>None\<close>).
\<close>

fun run_in_order ::
  "(nat \<Rightarrow> string) \<Rightarrow> (nat \<Rightarrow> job_outcome option) \<Rightarrow> nat list \<Rightarrow> (nat \<times> job_result) list option" where
  "run_in_order path job [] = Some []"
| "run_in_order path job (i # rest) =
     (case job i of
        None \<Rightarrow> None
      | Some out \<Rightarrow>
          (case run_in_order path job rest of
             None \<Rightarrow> None
           | Some rs \<Rightarrow> Some ((i, capture_outcome (path i) out) # rs)))"

definition runSequential ::
  "nat \<Rightarrow> (nat \<Rightarrow> string) \<Rightarrow> (nat \<Rightarrow> job_outcome option) \<Rightarrow> (nat \<times> job_result) list option" where
  "runSequential n path job = run_in_order path job [0..<n]"

text \<open>
  Modelled from the spec: "Runs jobs through a bounded worker pool of size K: at most K
  JobLifecycle executions are in flight simultaneously; as soon as one completes
  (success or failure) the next queued job starts."

  \<open>fill\<close> starts queued jobs while fewer than \<open>K\<close> are in flight.
\<close>

fun fill :: "nat \<Rightarrow> nat list \<Rightarrow> nat list \<Rightarrow> nat list \<times> nat list" where
  "fill K [] fl = ([], fl)"
| "fill K (j # q) fl = (if length fl < K then fill K q (fl @ [j]) else (j # q, fl))"

text \<open>The jobs in flight that will settle, each with its outcome.\<close>

definition settling :: "(nat \<Rightarrow> job_outcome option) \<Rightarrow> nat list \<Rightarrow> (nat \<times> job_outcome) list" where
  "settling job fl =
     concat (map (\<lambda>j. case job j of None \<Rightarrow> [] | Some out \<Rightarrow> [(j, out)]) fl)"

text \<open>
  The pool. Which of the jobs in flight completes next is not determined by the
  scheduler; \<open>pick\<close> gives, for the \<open>n\<close>-th completion, the position of the job
  that completes among those that will. Its result is collected and the pool is
  filled up again. The run ends when nothing is in flight; it never ends (\<open>None\<close>)
  once none of the jobs in flight will ever settle.
\<close>

function pool_run ::
  "nat \<Rightarrow> (nat \<Rightarrow> string) \<Rightarrow> (nat \<Rightarrow> job_outcome option) \<Rightarrow> (nat \<Rightarrow> nat) \<Rightarrow> nat
     \<Rightarrow> nat list \<Rightarrow> nat list \<Rightarrow> (nat \<times> job_result) list \<Rightarrow> (nat \<times> job_result) list option" where
  "pool_run K path job pick n q fl collected =
     (case fill K q fl of
        (q', fl') \<Rightarrow>
          if fl' = [] then Some collected
          else if settling job fl' = [] then None
          else (case settling job fl' ! (pick n mod length (settling job fl')) of
                  (j, out) \<Rightarrow>
                    pool_run K path job pick (Suc n) q' (remove1 j fl')
                      (collected @ [(j, capture_outcome (path j) out)])))"
  by pat_completeness auto
termination
proof (relation "measure (\<lambda>(K, path, job, pick, n, q, fl, collected). length q + length fl)")
  show "wf (measure (\<lambda>(K, path, job, pick, n, q, fl, collected). length q + length fl))"
    by simp
next
  fix K :: nat and path :: "nat \<Rightarrow> string" and job :: "nat \<Rightarrow> job_outcome option"
    and pick :: "nat \<Rightarrow> nat" and n :: nat
    and q fl :: "nat list" and collected :: "(nat \<times> job_result) list"
    and q' fl' :: "nat list" and j :: nat and out :: job_outcome
  assume a: "(q', fl') = fill K q fl" "fl' \<noteq> []" "settling job fl' \<noteq> []"
    "(j, out) = settling job fl' ! (pick n mod length (settling job fl'))"
  have "length (fst (fill K' u v)) + length (snd (fill K' u v)) = length u + length v" for K' u v
    by (induction K' u v rule: fill.induct) auto
  from this [of K q fl] a(1) have l: "length q' + length fl' = length q + length fl"
    by (metis fst_conv snd_conv)
  from a(3,4) have "(j, out) \<in> set (settling job fl')"
    by (metis length_greater_0_conv mod_less_divisor nth_mem)
  then have "j \<in> set fl'"
    by (auto simp: settling_def split: option.splits)
  then have "length (remove1 j fl') < length fl'"
    using length_pos_if_in_set [of j fl'] by (simp add: length_remove1)
  with l show "((K, path, job, pick, Suc n, q', remove1 j fl',
            collected @ [(j, capture_outcome (path j) out)]),
           (K, path, job, pick, n, q, fl, collected))
          \<in> measure (\<lambda>(K, path, job, pick, n, q, fl, collected). length q + length fl)"
    by simp
qed

declare pool_run.simps [simp del]

definition runParallel ::
  "nat \<Rightarrow> (nat \<Rightarrow> string) \<Rightarrow> (nat \<Rightarrow> job_outcome option) \<Rightarrow> nat \<Rightarrow> (nat \<Rightarrow> nat)
     \<Rightarrow> (nat \<times> job_result) list option" where
  "runParallel n path job K pick = pool_run K path job pick 0 [0..<n] [] []"

text \<open>
  The end of \<open>runBatch\<close> in \<open>record.js\<close>:
  \<^verbatim>\<open>
  let results;
  try {
    if (concurrency <= 1) { results = await runSequential(urls, outputDir, recordUrl, {}); }
    else { results = await runParallel(urls, outputDir, recordUrl, {}, concurrency); }
  } catch (error) { log(`FATAL: ...`); process.exit(1); }
  printBatchSummary(results);
  const failures = results.filter(r => !r.success);
  if (failures.length > 0) { process.exit(1); }\<close>
  The awaited runner returns the results, or throws, or never returns.
\<close>

datatype exit_status = ExitFailure | ExitSuccess

datatype run_end = Ends exit_status | NeverEnds

definition batch_results ::
  "nat \<Rightarrow> nat \<Rightarrow> (nat \<Rightarrow> string) \<Rightarrow> (nat \<Rightarrow> job_outcome option) \<Rightarrow> (nat \<Rightarrow> nat)
     \<Rightarrow> (nat \<times> job_result) list option" where
  "batch_results concurrency n path job pick =
     (if concurrency \<le> 1 then runSequential n path job
      else runParallel n path job concurrency pick)"

definition exit_for :: "error + job_result list \<Rightarrow> exit_status" where
  "exit_for run =
     (case run of
        Inl fatal \<Rightarrow> ExitFailure
      | Inr results \<Rightarrow>
          if length (filter (\<lambda>r. \<not> success r) results) > 0 then ExitFailure else ExitSuccess)"

definition runBatch_end :: "(error + (nat \<times> job_result) list) option \<Rightarrow> run_end" where
  "runBatch_end runner =
     (case runner of
        None \<Rightarrow> NeverEnds
      | Some (Inl fatal) \<Rightarrow> Ends (exit_for (Inl fatal))
      | Some (Inr results) \<Rightarrow> Ends (exit_for (Inr (map snd results))))"

text \<open>\<open>runBatch\<close> with the runners as modelled above, which do not throw.\<close>

definition runBatch ::
  "nat \<Rightarrow> nat \<Rightarrow> (nat \<Rightarrow> string) \<Rightarrow> (nat \<Rightarrow> job_outcome option) \<Rightarrow> (nat \<Rightarrow> nat) \<Rightarrow> run_end" where
  "runBatch concurrency n path job pick =
     runBatch_end (map_option Inr (batch_results concurrency n path job pick))"

text \<open>
  How a call of \<open>recordUrl\<close> looks to its caller: it never raises, since every error
  of its \<open>try\<close> block is caught; it may never settle.
\<close>

definition recordUrl_outcome :: "record_options \<Rightarrow> collaborators \<Rightarrow> job_outcome option" where
  "recordUrl_outcome opts w =
     (case fst (recordUrl opts w) of
        Resolved r \<Rightarrow> Some (Returns r)
      | NeverSettles \<Rightarrow> None)"

text \<open>A batch of five jobs of which the third raises and the fourth returns a failure.\<close>

definition five_paths :: "nat \<Rightarrow> string" where
  "five_paths i = ''out/'' @ string_of_nat i @ ''.mp4''"

definition five_jobs :: "nat \<Rightarrow> job_outcome option" where
  "five_jobs i =
     (if i = 2 then Some (Raises (Error ''boom''))
      else if i = 3 then Some (Returns \<lparr>success = False, result_outputPath = five_paths 3,
                                 result_error = Some ''Video element not found''\<rparr>)
      else Some (Returns \<lparr>success = True, result_outputPath = five_paths i, result_error = None\<rparr>))"

definition all_good_jobs :: "nat \<Rightarrow> job_outcome option" where
  "all_good_jobs i =
     Some (Returns \<lparr>success = True, result_outputPath = five_paths i, result_error = None\<rparr>)"

text \<open>
  Two jobs on cooperative collaborators, the first of which is asked to record without
  end; and the order of completion in which the first job in flight that can complete
  does.
\<close>

definition endless_first :: "nat \<Rightarrow> job_outcome option" where
  "endless_first i =
     recordUrl_outcome (if i = 0 then endless_options else default_options) cooperative_world"

definition first_in_flight :: "nat \<Rightarrow> nat" where
  "first_in_flight n = 0"

definition in_turn :: "nat \<Rightarrow> nat" where
  "in_turn n = n"

text \<open>Each collected result is the one its own job produced.\<close>

definition own_results ::
  "(nat \<Rightarrow> string) \<Rightarrow> (nat \<Rightarrow> job_outcome option) \<Rightarrow> (nat \<times> job_result) list \<Rightarrow> bool" where
  "own_results path job rs =
     (\<forall>(i, r)\<in>set rs. \<exists>out. job i = Some out \<and> r = capture_outcome (path i) out)"
section \<open>Properties of duration resolution\<close>

lemma detect_test_iff:
  "(truthy d \<and> js_gt0 d \<and> isFinite d) = finite_positive d"
  by (cases d) auto

text \<open>
  Claim C4, as stated, fails where the manual fallback is provided but falsy: with
  auto-detection on, a detected duration of \<open>NaN\<close> and \<open>--duration 0\<close>, the fallback
  test \<open>else if (duration)\<close> is false and the resolution throws instead of returning
  the fallback.
\<close>

theorem C4_fallback_zero_counterexample:
  "\<not> (\<forall>d m. \<not> finite_positive d \<longrightarrow>
          actualDuration_recordUrl True d (Some m) = Inr (Some m))"
proof
  assume "\<forall>d m. \<not> finite_positive d \<longrightarrow>
            actualDuration_recordUrl True d (Some m) = Inr (Some m)"
  then have "actualDuration_recordUrl True NaN (Some (Number 0)) = Inr (Some (Number 0))"
    by simp
  then show False
    by (simp add: actualDuration_recordUrl_def)
qed

text \<open>
  Claim C4, amended. In \<open>recordUrl\<close>: with auto-detection on, a finite positive
  detected duration resolves to its ceiling; otherwise a fallback that is provided and
  truthy (neither \<open>0\<close> nor \<open>NaN\<close>) is returned, and a missing or falsy fallback makes
  the resolution throw; with auto-detection off the result is the manual duration
  (which the up-front validation has required to be truthy). The single-job path of
  \<open>record.js\<close> resolves the same way for every detected duration other than
  \<open>Infinity\<close>.
\<close>

theorem C4_duration_resolution:
  "(0 < x \<longrightarrow>
      actualDuration_recordUrl True (Number x) m = Inr (Some (Number (of_int \<lceil>x\<rceil>))) \<and>
      actualDuration_main True (Number x) m = Inr (Some (Number (of_int \<lceil>x\<rceil>))))
   \<and> (\<not> finite_positive d \<and> opt_truthy m \<longrightarrow>
        actualDuration_recordUrl True d m = Inr m \<and>
        (d \<noteq> PosInf \<longrightarrow> actualDuration_main True d m = Inr m))
   \<and> (\<not> finite_positive d \<and> \<not> opt_truthy m \<longrightarrow>
        actualDuration_recordUrl True d m = Inl (Error msg_autodetect_failed) \<and>
        (d \<noteq> PosInf \<longrightarrow> actualDuration_main True d m = Inl (Error msg_autodetect_failed_main)))
   \<and> actualDuration_recordUrl False d m = Inr m
   \<and> actualDuration_main False d m = Inr m
   \<and> (duration_args_rejected m False \<longleftrightarrow> \<not> opt_truthy m)"
proof -
  have a: "0 < x \<Longrightarrow>
      actualDuration_recordUrl True (Number x) m = Inr (Some (Number (of_int \<lceil>x\<rceil>)))"
    by (simp add: actualDuration_recordUrl_def)
  have b: "0 < x \<Longrightarrow>
      actualDuration_main True (Number x) m = Inr (Some (Number (of_int \<lceil>x\<rceil>)))"
    by (simp add: actualDuration_main_def autoDetectedDuration_def)
  have c: "\<not> finite_positive d \<Longrightarrow> opt_truthy m \<Longrightarrow> actualDuration_recordUrl True d m = Inr m"
    by (simp add: actualDuration_recordUrl_def detect_test_iff)
  have d: "\<not> finite_positive d \<Longrightarrow> opt_truthy m \<Longrightarrow> d \<noteq> PosInf \<Longrightarrow>
      actualDuration_main True d m = Inr m"
    by (cases d) (simp_all add: actualDuration_main_def autoDetectedDuration_def)
  have e: "\<not> finite_positive d \<Longrightarrow> \<not> opt_truthy m \<Longrightarrow>
      actualDuration_recordUrl True d m = Inl (Error msg_autodetect_failed)"
    by (simp add: actualDuration_recordUrl_def detect_test_iff)
  have f: "\<not> finite_positive d \<Longrightarrow> \<not> opt_truthy m \<Longrightarrow> d \<noteq> PosInf \<Longrightarrow>
      actualDuration_main True d m = Inl (Error msg_autodetect_failed_main)"
    by (cases d) (simp_all add: actualDuration_main_def autoDetectedDuration_def)
  have g: "actualDuration_recordUrl False d m = Inr m"
    by (simp add: actualDuration_recordUrl_def)
  have h: "actualDuration_main False d m = Inr m"
    by (simp add: actualDuration_main_def)
  have i: "duration_args_rejected m False \<longleftrightarrow> \<not> opt_truthy m"
    by (simp add: duration_args_rejected_def)
  from a b c d e f g h i show ?thesis by blast
qed

text \<open>
  The spec's three examples: \<open>125.4\<close> with no fallback resolves to \<open>126\<close>; \<open>NaN\<close>
  with fallback \<open>30\<close> resolves to \<open>30\<close>; \<open>NaN\<close> with no fallback fails.
\<close>

theorem C4_duration_resolution_witness:
  "actualDuration_recordUrl True (Number (1254 / 10)) None = Inr (Some (Number 126))
   \<and> actualDuration_main True (Number (1254 / 10)) None = Inr (Some (Number 126))
   \<and> actualDuration_recordUrl True NaN (Some (Number 30)) = Inr (Some (Number 30))
   \<and> actualDuration_main True NaN (Some (Number 30)) = Inr (Some (Number 30))
   \<and> actualDuration_recordUrl True NaN None = Inl (Error msg_autodetect_failed)
   \<and> actualDuration_main True NaN None = Inl (Error msg_autodetect_failed_main)
   \<and> actualDuration_recordUrl False NaN (Some (Number 30)) = Inr (Some (Number 30))"
proof -
  have c: "\<lceil>(1254 / 10 :: rat)\<rceil> = 126"
    by (rule ceiling_unique) simp_all
  have p: "(0::rat) < 1254 / 10" by simp
  have t: "opt_truthy (Some (Number 30))" by simp
  have n: "\<not> finite_positive NaN" "\<not> opt_truthy None" "NaN \<noteq> PosInf" by simp_all
  show ?thesis
    using C4_duration_resolution [of "1254 / 10" None NaN]
      C4_duration_resolution [of "1254 / 10" "Some (Number 30)" NaN] c p t n
    by simp
qed

section \<open>Properties of process termination\<close>

text \<open>
  Claim C8 at a process that ignores the graceful signal. \<open>killProcess\<close> sends
  \<open>SIGTERM\<close>, which sets \<open>killed\<close>; when the grace period elapses the test
  \<open>process.killed === false\<close> fails, so no \<open>SIGKILL\<close> is sent and the promise
  resolves with the process still running. \<open>stopRecording\<close> has the same test and,
  for this process, never resolves. \<open>stopDisplay\<close>, which does not test \<open>killed\<close>,
  escalates to \<open>SIGKILL\<close>.
\<close>

theorem C8_no_escalation_for_live_process:
  "signals_sent (killProcess stubborn_process SIGTERM) = [SIGTERM]
   \<and> resolved (killProcess stubborn_process SIGTERM) = ResolvedOnTimeout
   \<and> running (process_after (killProcess stubborn_process SIGTERM)) = True
   \<and> signals_sent (stopRecording stubborn_process) = [SIGINT]
   \<and> resolved (stopRecording stubborn_process) = NotResolved
   \<and> running (process_after (stopRecording stubborn_process)) = True
   \<and> signals_sent (stopDisplay_process stubborn_process) = [SIGTERM, SIGKILL]
   \<and> running (process_after (stopDisplay_process stubborn_process)) = False"
  by (simp add: killProcess_def stopRecording_def stopDisplay_process_def
      stubborn_process_def kill_def exits_on_def)

section \<open>Properties of the cleanup coordinator\<close>

lemma owned_first:
  assumes "\<not> isCleaningUp m"
  shows "owned_by m ow 1 (step (init_sys m) ow)"
  using assms
  by (cases "cleanupHandlers m")
     (auto simp: owned_by_def step_def init_sys_def continue_from_def mgr_after_def
        acts_after_def pc_after_def take_Suc_conv_app_nth)

lemma owned_step_owner:
  assumes "owned_by m ow c s" "1 \<le> c"
  shows "owned_by m ow (Suc c) (step s ow)"
proof -
  let ?n = "length (cleanupHandlers m)"
  consider "c < ?n" | "c = ?n" | "c = Suc ?n" | "Suc ?n < c" by linarith
  then show ?thesis
  proof cases
    case 1
    with assms show ?thesis
      by (auto simp: owned_by_def step_def continue_from_def mgr_after_def
          acts_after_def pc_after_def take_Suc_conv_app_nth)
  next
    case 2
    with assms show ?thesis
      by (auto simp: owned_by_def step_def continue_from_def mgr_after_def
          acts_after_def pc_after_def)
  next
    case 3
    with assms show ?thesis
      by (auto simp: owned_by_def step_def mgr_after_def
          acts_after_def pc_after_def cleanup_pass_def)
  next
    case 4
    with assms show ?thesis
      by (auto simp: owned_by_def step_def mgr_after_def
          acts_after_def pc_after_def)
  qed
qed

lemma owned_step_other:
  assumes "owned_by m ow c s" "i \<noteq> ow"
  shows "owned_by m ow c (step s i) \<and> pcs (step s i) i = Returned"
proof -
  from assms have f: "isCleaningUp (mgr s)"
    by (simp add: owned_by_def mgr_after_def split: if_splits)
  from assms have "pcs s i = NotStarted \<or> pcs s i = Returned"
    by (simp add: owned_by_def)
  then show ?thesis
  proof
    assume n: "pcs s i = NotStarted"
    with assms f show ?thesis by (auto simp: owned_by_def step_def)
  next
    assume n: "pcs s i = Returned"
    with assms f show ?thesis by (auto simp: owned_by_def step_def)
  qed
qed

lemma owned_foldl:
  assumes "owned_by m ow c s" "1 \<le> c"
  shows "owned_by m ow (c + count_list rest ow) (foldl step s rest)
         \<and> (\<forall>i. i \<noteq> ow \<longrightarrow> i \<in> set rest \<or> pcs s i = Returned
               \<longrightarrow> pcs (foldl step s rest) i = Returned)"
  using assms
proof (induction rest arbitrary: s c)
  case Nil
  then show ?case by simp
next
  case (Cons j rest)
  show ?case
  proof (cases "j = ow")
    case True
    from Cons.prems have o: "owned_by m ow (Suc c) (step s ow)"
      by (rule owned_step_owner)
    have keep: "\<And>i. i \<noteq> ow \<Longrightarrow> pcs (step s ow) i = pcs s i"
      by (auto simp: step_def continue_from_def split: pc.splits)
    from Cons.IH [OF o] True keep show ?thesis by auto
  next
    case False
    from Cons.prems False have o: "owned_by m ow c (step s j)" and r: "pcs (step s j) j = Returned"
      using owned_step_other by blast+
    have keep: "\<And>i. i \<noteq> j \<Longrightarrow> pcs (step s j) i = pcs s i"
      by (auto simp: step_def continue_from_def split: pc.splits)
    from Cons.IH [OF o Cons.prems(2)] False r keep show ?thesis
      by (auto; metis)
  qed
qed

lemma run_owned:
  assumes "\<not> isCleaningUp m"
  shows "owned_by m ow (count_list (ow # rest) ow) (run_schedule m (ow # rest))
         \<and> (\<forall>i\<in>set rest. i \<noteq> ow \<longrightarrow> pcs (run_schedule m (ow # rest)) i = Returned)"
  using owned_foldl [OF owned_first [OF assms, of ow], of rest]
  by (simp add: run_schedule_def)

lemma acts_after_prefix: "prefix (acts_after m c) (cleanup_pass m)"
  by (auto simp: acts_after_def cleanup_pass_def prefix_def)
    (metis append_take_drop_id map_append append.assoc)

text \<open>
  Claim C2. Starting from a coordinator that is not yet cleaning up, for every schedule
  of every number of \<open>cleanupAll\<close> invocations: the actions performed are a prefix of
  the one cleanup pass (handlers in order, then the termination of every tracked
  process, then the clearing of the registry), so no step is ever performed twice; all
  of them are performed by the invocation that ran first; once that invocation has
  been resumed through all its suspension points the pass has been performed in full,
  exactly once, and the registry is empty; and every other invocation that ran has
  returned without performing any step.
\<close>

theorem C2_cleanupAll_once:
  assumes "\<not> isCleaningUp m"
  shows "prefix (map snd (acts (run_schedule m sch))) (cleanup_pass m)
     \<and> (\<forall>(i, a) \<in> set (acts (run_schedule m sch)). i = hd sch)
     \<and> (length (cleanupHandlers m) + 2 \<le> count_list sch (hd sch) \<longrightarrow>
          map snd (acts (run_schedule m sch)) = cleanup_pass m
          \<and> processes (mgr (run_schedule m sch)) = [])
     \<and> (\<forall>i \<in> set sch. i \<noteq> hd sch \<longrightarrow> pcs (run_schedule m sch) i = Returned)"
proof (cases sch)
  case Nil
  then show ?thesis by (simp add: run_schedule_def init_sys_def)
next
  case (Cons ow rest)
  from run_owned [OF assms, of ow rest]
  have o: "owned_by m ow (count_list sch ow) (run_schedule m sch)"
    and r: "\<forall>i\<in>set rest. i \<noteq> ow \<longrightarrow> pcs (run_schedule m sch) i = Returned"
    using Cons by simp_all
  have a: "acts (run_schedule m sch) = map (Pair ow) (acts_after m (count_list sch ow))"
    using o by (simp add: owned_by_def)
  have ms: "map snd (acts (run_schedule m sch)) = acts_after m (count_list sch ow)"
    by (simp add: a comp_def)
  have 1: "prefix (map snd (acts (run_schedule m sch))) (cleanup_pass m)"
    by (simp add: ms acts_after_prefix)
  have 2: "\<forall>(i, a) \<in> set (acts (run_schedule m sch)). i = hd sch"
    unfolding a using Cons by auto
  have 3: "length (cleanupHandlers m) + 2 \<le> count_list sch (hd sch) \<longrightarrow>
          map snd (acts (run_schedule m sch)) = cleanup_pass m
          \<and> processes (mgr (run_schedule m sch)) = []"
  proof
    assume c: "length (cleanupHandlers m) + 2 \<le> count_list sch (hd sch)"
    then have "acts_after m (count_list sch ow) = cleanup_pass m"
      using Cons by (simp add: acts_after_def)
    moreover have "processes (mgr (run_schedule m sch)) = []"
      using o c Cons by (simp add: owned_by_def mgr_after_def)
    ultimately show "map snd (acts (run_schedule m sch)) = cleanup_pass m
          \<and> processes (mgr (run_schedule m sch)) = []"
      by (simp add: ms)
  qed
  have 4: "\<forall>i \<in> set sch. i \<noteq> hd sch \<longrightarrow> pcs (run_schedule m sch) i = Returned"
    using r Cons by auto
  from 1 2 3 4 show ?thesis by blast
qed

text \<open>
  Two overlapping signal deliveries (invocations \<open>0\<close> and \<open>1\<close>) on a coordinator with
  two handlers and two tracked processes.
\<close>

theorem C2_cleanupAll_once_witness:
  "\<not> isCleaningUp two_handler_manager
   \<and> map snd (acts (run_schedule two_handler_manager [0, 1, 0, 1, 0, 0])) =
       [RunHandler (Handler ''audio'' False), RunHandler (Handler ''temp'' True),
        KillTracked ''xvfb'' SIGTERM, KillTracked ''ffmpeg'' SIGTERM, ClearRegistry]
   \<and> map fst (acts (run_schedule two_handler_manager [0, 1, 0, 1, 0, 0])) = [0, 0, 0, 0, 0]
   \<and> pcs (run_schedule two_handler_manager [0, 1, 0, 1, 0, 0]) 1 = Returned
   \<and> processes (mgr (run_schedule two_handler_manager [0, 1, 0, 1, 0, 0])) = []"
  using C2_cleanupAll_once [of two_handler_manager "[0, 1, 0, 1, 0, 0]"]
  by (simp add: two_handler_manager_def run_schedule_def init_sys_def step_def continue_from_def)

subsection \<open>Tracked processes that exit on their own\<close>

lemma keys_process_exits: "map fst (processes (process_exits n m)) = map fst (processes m)"
  by (induction "processes m" arbitrary: m) (auto simp: process_exits_def split: prod.splits)

lemma keys_exits_fold:
  "map fst (processes (foldr process_exits ns m)) = map fst (processes m)"
  by (induction ns) (simp_all add: keys_process_exits)

text \<open>
  Claim C9, as stated, fails: a process registered with \<open>trackProcess\<close> that then
  exits on its own is still listed, so the registry has one entry and no live process.
\<close>

theorem C9_entry_survives_exit_counterexample:
  "map fst (processes (process_exits ''xvfb''
      (trackProcess ''xvfb'' (Some live_process) new_manager))) = [''xvfb'']
   \<and> live_count (process_exits ''xvfb''
      (trackProcess ''xvfb'' (Some live_process) new_manager)) = 0"
  by (simp add: process_exits_def trackProcess_def new_manager_def live_process_def live_count_def)

text \<open>
  Claim C9, amended. A process registered with \<open>trackProcess\<close> under a valid handle
  stays in the registry however many tracked processes exit on their own, and the
  number of entries does not change; the entry goes away when \<open>untrackProcess\<close> is
  called for its name. The number of live tracked processes is at most the number of
  entries.
\<close>

theorem C9_entry_stays_until_untracked:
  assumes "\<not> invalid_process (Some p)"
  shows "name \<in> set (map fst (processes (foldr process_exits ns (trackProcess name (Some p) m))))
     \<and> length (processes (foldr process_exits ns (trackProcess name (Some p) m)))
         = length (processes (trackProcess name (Some p) m))
     \<and> name \<notin> set (map fst (processes (untrackProcess name
                        (foldr process_exits ns (trackProcess name (Some p) m)))))
     \<and> live_count (foldr process_exits ns (trackProcess name (Some p) m))
         \<le> length (processes (foldr process_exits ns (trackProcess name (Some p) m)))"
proof -
  have k: "name \<in> set (map fst (processes (trackProcess name (Some p) m)))"
    using assms AList.dom_update [of name p "processes m"] by (simp add: trackProcess_def)
  have 1: "name \<in> set (map fst (processes (foldr process_exits ns (trackProcess name (Some p) m))))"
    using k by (simp only: keys_exits_fold)
  have 2: "length (processes (foldr process_exits ns (trackProcess name (Some p) m)))
         = length (processes (trackProcess name (Some p) m))"
    using keys_exits_fold [of ns "trackProcess name (Some p) m"] by (metis length_map)
  have 3: "name \<notin> set (map fst (processes (untrackProcess name m')))" for m'
    by (auto simp: untrackProcess_def AList.delete_eq)
  have 4: "live_count m' \<le> length (processes m')" for m'
    by (simp add: live_count_def)
  from 1 2 3 4 show ?thesis by blast
qed

theorem C9_entry_stays_until_untracked_witness:
  "\<not> invalid_process (Some live_process)
   \<and> ''xvfb'' \<in> set (map fst (processes (foldr process_exits [''xvfb'']
        (trackProcess ''xvfb'' (Some live_process) new_manager))))
   \<and> length (processes (foldr process_exits [''xvfb'']
        (trackProcess ''xvfb'' (Some live_process) new_manager))) = 1
   \<and> ''xvfb'' \<notin> set (map fst (processes (untrackProcess ''xvfb'' (foldr process_exits [''xvfb'']
        (trackProcess ''xvfb'' (Some live_process) new_manager)))))"
  using C9_entry_stays_until_untracked [of live_process "''xvfb''" "[''xvfb'']" new_manager]
  by (simp add: live_process_def trackProcess_def new_manager_def)

section \<open>Properties of the playback retry loop\<close>

lemma body_events:
  "\<exists>tl_evs. snd (attempt_body opts a) = first_call opts # tl_evs \<and> first_call opts \<notin> set tl_evs
      \<and> Sleep 1000 \<noteq> first_call opts"
  by (auto simp: attempt_body_def first_call_def Let_def
      split: option.splits sum.splits play_result.splits)

lemma waits_before_append:
  assumes "waits_before a xs" "waits_before a ys"
    and "xs = [] \<or> ys = [] \<or> hd ys \<noteq> a \<or> last xs = Sleep 1000"
  shows "waits_before a (xs @ ys)"
  using assms
proof (induction a xs rule: waits_before.induct)
  case (1 a)
  then show ?case by simp
next
  case (2 a e)
  then show ?case by (cases ys) auto
next
  case (3 a e e' es)
  then show ?case by (auto split: if_splits)
qed

lemma waits_before_body: "waits_before (first_call opts) (snd (attempt_body opts a))"
  by (auto simp: attempt_body_def first_call_def Let_def
      split: option.splits sum.splits play_result.splits)

lemma waits_before_cons_notin:
  "a \<notin> set es \<Longrightarrow> waits_before a (e # es)"
  by (induction es arbitrary: e) auto

lemma loop_count:
  "count_list (snd (play_loop opts pg k)) (first_call opts) \<le> Suc (maxAttempts opts) - k"
proof (induction opts pg k rule: play_loop.induct)
  case (1 opts pg attempt)
  obtain tl_evs where b: "snd (attempt_body opts (pg attempt)) = first_call opts # tl_evs"
    "first_call opts \<notin> set tl_evs" "Sleep 1000 \<noteq> first_call opts"
    using body_events by blast
  show ?case
  proof (cases "attempt \<le> maxAttempts opts")
    case False
    then show ?thesis by (simp add: play_loop.simps)
  next
    case True
    obtain en evs where ab: "attempt_body opts (pg attempt) = (en, evs)"
      by (cases "attempt_body opts (pg attempt)")
    with b have evs: "evs = first_call opts # tl_evs" by simp
    show ?thesis
    proof (cases en)
      case Return
      with True ab evs b show ?thesis
        by (subst play_loop.simps) simp
    next
      case Retry
      from "1.IH"(1) [OF True ab [symmetric] Retry refl]
      have "count_list (snd (play_loop opts pg (Suc attempt))) (first_call opts)
              \<le> Suc (maxAttempts opts) - Suc attempt" by simp
      with True ab evs b Retry show ?thesis
        by (subst play_loop.simps) (auto simp: split_beta)
    next
      case (Caught e)
      show ?thesis
      proof (cases "attempt = maxAttempts opts")
        case t: True
        with True ab evs b Caught show ?thesis
          by (subst play_loop.simps) simp
      next
        case f: False
        from "1.IH"(2) [OF True ab [symmetric] Caught f]
        have "count_list (snd (play_loop opts pg (Suc attempt))) (first_call opts)
              \<le> Suc (maxAttempts opts) - Suc attempt" by simp
        with True ab evs b Caught f show ?thesis
          by (subst play_loop.simps) (auto simp: split_beta)
      qed
    qed
  qed
qed


lemma loop_nonempty_hd:
  "snd (play_loop opts pg k) = [] \<or> hd (snd (play_loop opts pg k)) = first_call opts"
proof -
  obtain tl_evs where b: "snd (attempt_body opts (pg k)) = first_call opts # tl_evs"
    using body_events by blast
  obtain en evs where ab: "attempt_body opts (pg k) = (en, evs)"
    by (cases "attempt_body opts (pg k)")
  with b have evs: "evs = first_call opts # tl_evs" by simp
  show ?thesis
    using ab evs
    by (subst (1 2) play_loop.simps) (auto simp: split_beta split: attempt_end.splits)
qed

lemma loop_waits:
  "waits_before (first_call opts) (snd (play_loop opts pg k))"
proof (induction opts pg k rule: play_loop.induct)
  case (1 opts pg attempt)
  have wb: "waits_before (first_call opts) (snd (attempt_body opts (pg attempt)))"
    by (rule waits_before_body)
  obtain tl_evs where b: "snd (attempt_body opts (pg attempt)) = first_call opts # tl_evs"
    "first_call opts \<notin> set tl_evs" "Sleep 1000 \<noteq> first_call opts"
    using body_events by blast
  show ?case
  proof (cases "attempt \<le> maxAttempts opts")
    case False
    then show ?thesis by (simp add: play_loop.simps)
  next
    case True
    obtain en evs where ab: "attempt_body opts (pg attempt) = (en, evs)"
      by (cases "attempt_body opts (pg attempt)")
    with b wb have evs: "evs = first_call opts # tl_evs" "waits_before (first_call opts) evs"
      by simp_all
    let ?rest = "snd (play_loop opts pg (Suc attempt))"
    have sl: "waits_before (first_call opts) ([Sleep 1000] @ ?rest)" if "waits_before (first_call opts) ?rest"
      using that by (cases ?rest) auto
    show ?thesis
    proof (cases en)
      case Return
      with True ab evs show ?thesis
        by (subst play_loop.simps) simp
    next
      case Retry
      from "1.IH"(1) [OF True ab [symmetric] Retry refl]
      have ih: "waits_before (first_call opts) ?rest" by simp
      show ?thesis
      proof (cases "attempt < maxAttempts opts")
        case lt: True
        have "waits_before (first_call opts) (evs @ ([Sleep 1000] @ ?rest))"
        proof (rule waits_before_append)
          show "waits_before (first_call opts) evs" by (rule evs(2))
          show "waits_before (first_call opts) ([Sleep 1000] @ ?rest)" by (rule sl [OF ih])
          show "evs = [] \<or> [Sleep 1000] @ ?rest = [] \<or> hd ([Sleep 1000] @ ?rest) \<noteq> first_call opts
                  \<or> last evs = Sleep 1000"
            using b(3) by simp
        qed
        with True ab Retry lt show ?thesis
          by (subst play_loop.simps) (simp add: split_beta)
      next
        case ge: False
        with True have "\<not> Suc attempt \<le> maxAttempts opts" by simp
        then have "?rest = []" by (subst play_loop.simps) simp
        with True ab Retry ge evs show ?thesis
          by (subst play_loop.simps) (simp add: split_beta)
      qed
    next
      case (Caught e)
      show ?thesis
      proof (cases "attempt = maxAttempts opts")
        case t: True
        with True ab evs Caught show ?thesis
          by (subst play_loop.simps) simp
      next
        case f: False
        from "1.IH"(2) [OF True ab [symmetric] Caught f]
        have ih: "waits_before (first_call opts) ?rest" by simp
        have "waits_before (first_call opts) (evs @ ([Sleep 1000] @ ?rest))"
        proof (rule waits_before_append)
          show "waits_before (first_call opts) evs" by (rule evs(2))
          show "waits_before (first_call opts) ([Sleep 1000] @ ?rest)" by (rule sl [OF ih])
          show "evs = [] \<or> [Sleep 1000] @ ?rest = [] \<or> hd ([Sleep 1000] @ ?rest) \<noteq> first_call opts
                  \<or> last evs = Sleep 1000"
            using b(3) by simp
        qed
        with True ab Caught f show ?thesis
          by (subst play_loop.simps) (simp add: split_beta)
      qed
    qed
  qed
qed

lemma succeeds_body:
  "attempt_succeeds a \<Longrightarrow>
     attempt_body default_play_options a =
       (Return, [VideoClick, Sleep 500, VideoPlay, Sleep 1000, VideoCheck])"
  by (auto simp: attempt_succeeds_def attempt_body_def default_play_options_def
      split: sum.splits)

lemma fails_body:
  assumes "\<not> attempt_succeeds a"
  shows "fst (attempt_body default_play_options a) \<noteq> Return
     \<and> count_list (snd (attempt_body default_play_options a)) VideoClick = 1"
  using assms
  by (auto simp: attempt_succeeds_def attempt_body_def default_play_options_def Let_def
      split: sum.splits option.splits play_result.splits)

lemma loop_after_last [simp]: "play_loop default_play_options pg 4 = (Inl (msg_could_not_start 3), [])"
  by (subst play_loop.simps) (simp add: default_play_options_def)

lemma loop_success:
  assumes "attempt_succeeds (pg k)" "k \<le> 3"
  shows "play_loop default_play_options pg k =
       (Inr (), [VideoClick, Sleep 500, VideoPlay, Sleep 1000, VideoCheck])"
  using assms succeeds_body [OF assms(1)]
  by (subst play_loop.simps) (simp add: default_play_options_def)

lemma loop_failure_step:
  assumes "\<not> attempt_succeeds (pg k)" "k < 3"
  shows "fst (play_loop default_play_options pg k) = fst (play_loop default_play_options pg (Suc k))
     \<and> count_list (snd (play_loop default_play_options pg k)) VideoClick
         = Suc (count_list (snd (play_loop default_play_options pg (Suc k))) VideoClick)"
proof -
  obtain en evs where ab: "attempt_body default_play_options (pg k) = (en, evs)"
    by (cases "attempt_body default_play_options (pg k)")
  with fails_body [OF assms(1)] have f: "en \<noteq> Return" "count_list evs VideoClick = 1"
    by simp_all
  have m: "maxAttempts default_play_options = 3" by (simp add: default_play_options_def)
  show ?thesis
    using ab f assms(2) m
    by (subst (1 3) play_loop.simps) (cases en; simp add: split_beta)
qed

lemma loop_failure_last:
  assumes "\<not> attempt_succeeds (pg 3)"
  shows "(fst (play_loop default_play_options pg 3) = Inl (msg_could_not_start 3)
          \<or> (\<exists>e. fst (play_loop default_play_options pg 3) = Inl (msg_failed_to_play 3 e)))
     \<and> count_list (snd (play_loop default_play_options pg 3)) VideoClick = 1"
proof -
  obtain en evs where ab: "attempt_body default_play_options (pg 3) = (en, evs)"
    by (cases "attempt_body default_play_options (pg 3)")
  with fails_body [OF assms(1)] have f: "en \<noteq> Return" "count_list evs VideoClick = 1"
    by simp_all
  have m: "maxAttempts default_play_options = 3" by (simp add: default_play_options_def)
  have n: "Suc 3 = 4" by simp
  show ?thesis
    using ab f m
    by (subst (1 2 3) play_loop.simps) (cases en; auto simp add: split_beta n simp del: One_nat_def)
qed

text \<open>
  Claim C5. For every page and all options, \<open>playVideo\<close> makes at most
  \<open>maxAttempts\<close> attempts (3 by default), counted by the first call of each attempt,
  and every attempt after the first begins directly after a wait of one second. With
  the default options an attempt that succeeds clicks the element, waits, calls
  \<open>play()\<close>, waits the fixed interval and verifies the playing state (not paused, not
  ended, ready state above 2), after which \<open>playVideo\<close> returns. If attempts 1 and 2
  fail and attempt 3 succeeds, \<open>playVideo\<close> returns normally after exactly 3 attempts;
  if all 3 fail it throws one of its two playback errors, after exactly 3 attempts.
\<close>

theorem C5_playVideo_retries:
  "count_list (snd (playVideo opts pg)) (first_call opts) \<le> maxAttempts opts
   \<and> waits_before (first_call opts) (snd (playVideo opts pg))
   \<and> (attempt_succeeds a \<longrightarrow>
        attempt_body default_play_options a =
          (Return, [VideoClick, Sleep 500, VideoPlay, Sleep 1000, VideoCheck]))
   \<and> (\<not> attempt_succeeds (pg 1) \<and> \<not> attempt_succeeds (pg 2) \<and> attempt_succeeds (pg 3) \<longrightarrow>
        fst (playVideo default_play_options pg) = Inr ()
        \<and> count_list (snd (playVideo default_play_options pg)) VideoClick = 3)
   \<and> (\<not> attempt_succeeds (pg 1) \<and> \<not> attempt_succeeds (pg 2) \<and> \<not> attempt_succeeds (pg 3) \<longrightarrow>
        (fst (playVideo default_play_options pg) = Inl (msg_could_not_start 3)
          \<or> (\<exists>e. fst (playVideo default_play_options pg) = Inl (msg_failed_to_play 3 e)))
        \<and> count_list (snd (playVideo default_play_options pg)) VideoClick = 3)"
proof -
  have 1: "count_list (snd (playVideo opts pg)) (first_call opts) \<le> maxAttempts opts"
    using loop_count [of opts pg 1] by (simp add: playVideo_def)
  have 2: "waits_before (first_call opts) (snd (playVideo opts pg))"
    by (simp add: playVideo_def loop_waits)
  have s2: "Suc 1 = 2" and s3: "Suc 2 = 3" by simp_all
  have 4: "fst (playVideo default_play_options pg) = Inr ()
        \<and> count_list (snd (playVideo default_play_options pg)) VideoClick = 3"
    if "\<not> attempt_succeeds (pg 1)" "\<not> attempt_succeeds (pg 2)" "attempt_succeeds (pg 3)"
    using loop_failure_step [of pg 1] loop_failure_step [of pg 2] loop_success [of pg 3] that
    by (simp add: playVideo_def s2 s3 del: One_nat_def)
  have 5: "(fst (playVideo default_play_options pg) = Inl (msg_could_not_start 3)
          \<or> (\<exists>e. fst (playVideo default_play_options pg) = Inl (msg_failed_to_play 3 e)))
        \<and> count_list (snd (playVideo default_play_options pg)) VideoClick = 3"
    if "\<not> attempt_succeeds (pg 1)" "\<not> attempt_succeeds (pg 2)" "\<not> attempt_succeeds (pg 3)"
    using loop_failure_step [of pg 1] loop_failure_step [of pg 2] loop_failure_last [of pg] that
    by (simp add: playVideo_def s2 s3 del: One_nat_def)
  from 1 2 succeeds_body 4 5 show ?thesis by blast
qed

text \<open>
  A page whose first attempt is rejected, whose second stalls and whose third plays; and
  a page that never plays.
\<close>

theorem C5_playVideo_retries_witness:
  "\<not> attempt_succeeds (third_time_page 1) \<and> \<not> attempt_succeeds (third_time_page 2)
   \<and> attempt_succeeds (third_time_page 3)
   \<and> fst (playVideo default_play_options third_time_page) = Inr ()
   \<and> count_list (snd (playVideo default_play_options third_time_page)) VideoClick = 3
   \<and> \<not> attempt_succeeds (never_playing_page 1) \<and> \<not> attempt_succeeds (never_playing_page 2)
   \<and> \<not> attempt_succeeds (never_playing_page 3)
   \<and> fst (playVideo default_play_options never_playing_page) = Inl (msg_could_not_start 3)
   \<and> count_list (snd (playVideo default_play_options never_playing_page)) VideoClick = 3
   \<and> attempt_succeeds good_attempt"
proof -
  have a: "\<not> attempt_succeeds (third_time_page 1)" "\<not> attempt_succeeds (third_time_page 2)"
    "attempt_succeeds (third_time_page 3)" "attempt_succeeds good_attempt"
    by (simp_all add: third_time_page_def attempt_succeeds_def rejected_attempt_def
        stalled_attempt_def good_attempt_def isPlaying_def playing_state_def)
  have b: "\<not> attempt_succeeds (never_playing_page 1)" "\<not> attempt_succeeds (never_playing_page 2)"
    "\<not> attempt_succeeds (never_playing_page 3)"
    by (simp_all add: never_playing_page_def attempt_succeeds_def rejected_attempt_def
        stalled_attempt_def isPlaying_def)
  have c: "fst (playVideo default_play_options never_playing_page) = Inl (msg_could_not_start 3)"
    by (simp add: playVideo_def play_loop.simps default_play_options_def never_playing_page_def
        attempt_body_def rejected_attempt_def stalled_attempt_def isPlaying_def)
  show ?thesis
    using C5_playVideo_retries [of default_play_options third_time_page good_attempt]
      C5_playVideo_retries [of default_play_options never_playing_page good_attempt] a b c
    by simp
qed

section \<open>Properties of display allocation\<close>

lemma find_loop_first_free:
  "find_loop inUse s m i = Inr d \<Longrightarrow>
     \<not> inUse d \<and> s + i \<le> d \<and> d < s + m \<and> (\<forall>k. s + i \<le> k \<and> k < d \<longrightarrow> inUse k)"
proof (induction inUse s m i rule: find_loop.induct)
  case (1 inUse s m i)
  show ?case
  proof (cases "i < m \<and> inUse (s + i)")
    case True
    with "1.prems" have "find_loop inUse s m (Suc i) = Inr d"
      by (subst (asm) find_loop.simps) simp
    with "1.IH" True have ih: "\<not> inUse d \<and> s + Suc i \<le> d \<and> d < s + m
        \<and> (\<forall>k. s + Suc i \<le> k \<and> k < d \<longrightarrow> inUse k)"
      by simp
    have "inUse k" if "s + i \<le> k" "k < d" for k
    proof (cases "k = s + i")
      case True
      with \<open>i < m \<and> inUse (s + i)\<close> show ?thesis by simp
    next
      case False
      with that ih show ?thesis by simp
    qed
    with ih show ?thesis by simp
  next
    case False
    with "1.prems" show ?thesis
      by (subst (asm) find_loop.simps) (auto split: if_splits)
  qed
qed

lemma choose_display_first_free:
  assumes "choose_display inUse n True = Inr d"
  shows "\<not> inUse d \<and> n \<le> d \<and> d \<le> n + 10 \<and> (\<forall>k. n \<le> k \<and> k < d \<longrightarrow> inUse k)"
proof (cases "inUse n")
  case False
  with assms show ?thesis by (auto simp add: choose_display_def)
next
  case True
  with assms have "find_loop inUse (n + 1) 10 0 = Inr d"
    by (simp add: choose_display_def findAvailableDisplay_def)
  from find_loop_first_free [OF this]
  have f: "\<not> inUse d" "n + 1 \<le> d" "d < n + 1 + 10" "\<forall>k. n + 1 \<le> k \<and> k < d \<longrightarrow> inUse k"
    by simp_all
  have "inUse k" if "n \<le> k" "k < d" for k
    using that f(4) True by (cases "k = n") auto
  with f show ?thesis by simp
qed

lemma phase_set_phase [simp]: "phase (set_phase j p w) i = (if i = j then p else phase w i)"
  by (simp add: set_phase_def)

lemma servers_set_phase [simp]: "servers (set_phase j p w) = servers w"
  by (simp add: set_phase_def)

lemma env_set_phase [simp]: "env_DISPLAY (set_phase j p w) = env_DISPLAY w"
  by (simp add: set_phase_def)

lemma serial_inv_fresh: "serial_inv taken (fresh_world taken)"
  by (simp add: serial_inv_def fresh_world_def)

lemma serial_invI:
  assumes "taken \<subseteq> servers w"
    and "\<And>j d x. phase w j \<noteq> Waiting d x \<and> phase w j \<noteq> Unwatched d"
    and "\<And>j d own. phase w j = Holding d own \<Longrightarrow> own \<and> d \<in> servers w \<and> d \<notin> taken"
    and "\<And>i j d oi oj. i \<noteq> j \<Longrightarrow> phase w i = Holding d oi \<Longrightarrow> phase w j \<noteq> Holding d oj"
  shows "serial_inv taken w"
  unfolding serial_inv_def using assms by blast

lemma serial_invD:
  assumes "serial_inv taken w"
  shows "taken \<subseteq> servers w"
    and "\<And>j d x. phase w j \<noteq> Waiting d x \<and> phase w j \<noteq> Unwatched d"
    and "\<And>j d own. phase w j = Holding d own \<Longrightarrow> own \<and> d \<in> servers w \<and> d \<notin> taken"
    and "\<And>i j d oi oj. i \<noteq> j \<Longrightarrow> phase w i = Holding d oi \<Longrightarrow> phase w j \<noteq> Holding d oj"
  using assms unfolding serial_inv_def by blast+

lemma serial_inv_env [simp]: "serial_inv taken (w\<lparr>env_DISPLAY := s\<rparr>) = serial_inv taken w"
  by (simp add: serial_inv_def)

lemma allocate_cases:
  assumes "serial_inv taken w"
  shows "allocate j n w = w
     \<or> (\<exists>s. allocate j n w = w\<lparr>env_DISPLAY := s\<rparr>)
     \<or> (\<exists>e. phase w j = Idle \<and> allocate j n w = set_phase j (Refused e) w)
     \<or> (\<exists>d. phase w j = Idle \<and> d \<notin> servers w
           \<and> choose_display (\<lambda>k. k \<in> servers w) n True = Inr d
           \<and> allocate j n w =
               set_phase j (Holding d True)
                 (w\<lparr>servers := insert d (servers w), env_DISPLAY := Some (display_name d)\<rparr>))"
proof (cases "phase w j")
  case Idle
  show ?thesis
  proof (cases "xvfb_installed w")
    case False
    with Idle have "allocate j n w = set_phase j (Refused msg_xvfb_missing) w"
      by (simp add: allocate_def display_run_def set_phase_def)
    with Idle show ?thesis by blast
  next
    case True
    show ?thesis
    proof (cases "choose_display (\<lambda>k. k \<in> servers w) n True")
      case (Inl e)
      with Idle True have "allocate j n w = set_phase j (Refused e) w"
        by (simp add: allocate_def display_run_def set_phase_def)
      with Idle show ?thesis by blast
    next
      case (Inr d)
      from choose_display_first_free [OF Inr] have nd: "d \<notin> servers w" by simp
      with Idle True Inr have "allocate j n w =
               set_phase j (Holding d True)
                 (w\<lparr>servers := insert d (servers w), env_DISPLAY := Some (display_name d)\<rparr>)"
        by (simp add: allocate_def display_run_def set_phase_def)
      with Idle nd Inr show ?thesis by blast
    qed
  qed
next
  case (Refused e)
  then show ?thesis by (simp add: allocate_def display_run_def)
next
  case (Waiting d x)
  with serial_invD(2) [OF assms] show ?thesis by blast
next
  case (Unwatched d)
  with serial_invD(2) [OF assms] show ?thesis by blast
next
  case (Holding d own)
  then show ?thesis by (auto simp add: allocate_def display_run_def)
next
  case (StartFailed d e)
  then show ?thesis by (auto simp add: allocate_def display_run_def)
next
  case (Stopped d)
  then show ?thesis by (auto simp add: allocate_def display_run_def)
qed

lemma serial_inv_allocate:
  assumes "serial_inv taken w"
  shows "serial_inv taken (allocate j n w)"
proof -
  note D = serial_invD [OF assms]
  from allocate_cases [OF assms, of j n]
  consider "allocate j n w = w"
    | s where "allocate j n w = w\<lparr>env_DISPLAY := s\<rparr>"
    | e where "phase w j = Idle" "allocate j n w = set_phase j (Refused e) w"
    | d where "phase w j = Idle" "d \<notin> servers w"
        "allocate j n w = set_phase j (Holding d True)
           (w\<lparr>servers := insert d (servers w), env_DISPLAY := Some (display_name d)\<rparr>)"
    by blast
  then show ?thesis
  proof cases
    case 1
    with assms show ?thesis by simp
  next
    case 2
    with assms show ?thesis by simp
  next
    case 3
    show ?thesis
      unfolding 3(2)
    proof (rule serial_invI)
      show "taken \<subseteq> servers (set_phase j (Refused e) w)" using D(1) by simp
      show "phase (set_phase j (Refused e) w) i \<noteq> Waiting d x
          \<and> phase (set_phase j (Refused e) w) i \<noteq> Unwatched d" for i d x
        using D(2) [of i d x] by simp
      show "own \<and> d \<in> servers (set_phase j (Refused e) w) \<and> d \<notin> taken"
        if "phase (set_phase j (Refused e) w) i = Holding d own" for i d own
        using that D(3) [of i d own] by (simp split: if_splits)
      show "phase (set_phase j (Refused e) w) k \<noteq> Holding d oj"
        if "i \<noteq> k" "phase (set_phase j (Refused e) w) i = Holding d oi" for i k d oi oj
        using that D(4) [of i k d oi oj] by (simp split: if_splits)
    qed
  next
    case 4
    let ?w = "set_phase j (Holding d True)
           (w\<lparr>servers := insert d (servers w), env_DISPLAY := Some (display_name d)\<rparr>)"
    from D(1) 4(2) have nt: "d \<notin> taken" by blast
    show ?thesis
      unfolding 4(3)
    proof (rule serial_invI)
      show "taken \<subseteq> servers ?w" using D(1) by auto
      show "phase ?w i \<noteq> Waiting d' x \<and> phase ?w i \<noteq> Unwatched d'" for i d' x
        using D(2) [of i d' x] by simp
      show "own \<and> d' \<in> servers ?w \<and> d' \<notin> taken" if "phase ?w i = Holding d' own" for i d' own
        using that D(3) [of i d' own] nt by (auto split: if_splits)
      show "phase ?w k \<noteq> Holding d' oj" if "i \<noteq> k" "phase ?w i = Holding d' oi" for i k d' oi oj
        using that D(4) [of i k d' oi oj] D(3) [of k d' oj] D(3) [of i d' oi] 4(2)
        by (auto split: if_splits)
    qed
  qed
qed

lemma serial_inv_stop:
  assumes "serial_inv taken w"
  shows "serial_inv taken (display_step w (Stop j))"
proof (cases "phase w j")
  case (Holding d own)
  note D = serial_invD [OF assms]
  from D(3) [OF Holding] have o: "own" "d \<notin> taken" by simp_all
  let ?w = "set_phase j (Stopped d) (w\<lparr>servers := servers w - {d}\<rparr>)"
  from Holding o have s: "display_step w (Stop j) = ?w"
    by simp
  show ?thesis
    unfolding s
  proof (rule serial_invI)
    show "taken \<subseteq> servers ?w" using D(1) o by auto
    show "phase ?w i \<noteq> Waiting d' x \<and> phase ?w i \<noteq> Unwatched d'" for i d' x
      using D(2) [of i d' x] by simp
    show "own' \<and> d' \<in> servers ?w \<and> d' \<notin> taken" if "phase ?w i = Holding d' own'" for i d' own'
      using that D(3) [of i d' own'] D(4) [of i j d' own' own] Holding
      by (auto split: if_splits)
    show "phase ?w k \<noteq> Holding d' oj" if "i \<noteq> k" "phase ?w i = Holding d' oi" for i k d' oi oj
      using that D(4) [of i k d' oi oj] by (auto split: if_splits)
  qed
qed (use assms in simp_all)

lemma serial_inv_run:
  assumes "serial_inv taken w"
  shows "serial_inv taken (serial_run w evs)"
  unfolding serial_run_def using assms
proof (induction evs arbitrary: w)
  case Nil
  then show ?case by simp
next
  case (Cons e evs)
  have "serial_inv taken (serial_step w e)"
  proof (cases e)
    case (Allocate j n)
    with Cons.prems show ?thesis by (simp add: serial_inv_allocate)
  next
    case (Release j)
    with Cons.prems serial_inv_stop [of taken w j] show ?thesis by simp
  qed
  from Cons.IH [OF this] show ?case by simp
qed


lemma xvfb_installed_step [simp]: "xvfb_installed (display_step w e) = xvfb_installed w"
  by (cases e)
    (auto simp: set_phase_def split: job_phase.splits xvfb.splits sum.splits option.splits)

lemma xvfb_installed_serial: "xvfb_installed (serial_run w evs) = xvfb_installed w"
  unfolding serial_run_def
proof (induction evs arbitrary: w)
  case Nil
  then show ?case by simp
next
  case (Cons e evs)
  have "xvfb_installed (serial_step w e) = xvfb_installed w"
    by (cases e) (simp_all add: allocate_def display_run_def del: display_step.simps)
  with Cons.IH [of "serial_step w e"] show ?case by simp
qed

text \<open>
  Claim C1, as stated, fails when two jobs' allocations overlap. Jobs 0 and 1 both
  call \<open>startDisplay(99)\<close> before either \<open>Xvfb\<close> has taken the display: both probes
  report 99 free, and nothing reserves the number. The \<open>Xvfb\<close> of job 0 takes display
  99, that of job 1 fails to. When the readiness poll of job 1 runs before the failed
  \<open>Xvfb\<close>'s \<open>exit\<close> event is delivered, it finds display 99 in use (by job 0's
  server) and resolves: both jobs hold display 99.
\<close>

theorem C1_overlapping_allocations_counterexample:
  "holds (display_run (fresh_world {})
            [Begin 0 99, Begin 1 99, Bind 0 (Some 1), Bind 1 (Some 1), Ready 0, Ready 1]) 0 = Some 99
   \<and> holds (display_run (fresh_world {})
            [Begin 0 99, Begin 1 99, Bind 0 (Some 1), Bind 1 (Some 1), Ready 0, Ready 1]) 1 = Some 99"
  by (simp add: display_run_def fresh_world_def choose_display_def set_phase_def holds_def)

subsection \<open>Sink names\<close>

lemma digit_value_digit_char: "d < 10 \<Longrightarrow> digit_value (digit_char d) = d"
proof -
  assume "d < 10"
  then have "d \<in> {0, 1, 2, 3, 4, 5, 6, 7, 8, 9}" by auto
  then show ?thesis
    by (auto simp: digit_value_def digit_char_def)
qed

lemma nat_of_string_snoc: "nat_of_string (s @ [c]) = 10 * nat_of_string s + digit_value c"
  by (simp add: nat_of_string_def)

lemma nat_of_string_of_nat: "nat_of_string (string_of_nat n) = n"
proof (induction n rule: string_of_nat.induct)
  case (1 n)
  show ?case
  proof (cases "n < 10")
    case True
    then show ?thesis
      by (subst string_of_nat.simps) (simp add: nat_of_string_def digit_value_digit_char)
  next
    case False
    with "1.IH" have "nat_of_string (string_of_nat (n div 10)) = n div 10" by simp
    with False show ?thesis
      by (subst string_of_nat.simps) (simp add: nat_of_string_snoc digit_value_digit_char)
  qed
qed

lemma string_of_nat_inject: "string_of_nat i = string_of_nat j \<longleftrightarrow> i = j"
  by (metis nat_of_string_of_nat)

lemma parallel_sinks_distinct:
  "i \<noteq> j \<Longrightarrow>
     fst (allocateSink baseName (jobId i) True) \<noteq> fst (allocateSink baseName (jobId j) True)"
  by (simp add: allocateSink_def jobId_def string_of_nat_inject)

text \<open>
  Claim C1, amended. The number \<open>startDisplay\<close> chooses is the first probed number
  reported free: it is free, it is at most ten above the preferred number, and every
  number from the preferred one up to it was reported in use; a job whose allocation
  is not interleaved with another's comes to hold exactly that number. When no two
  allocations overlap (each job's \<open>startDisplay\<close> completes before another job's
  begins), then after any sequence of allocations and releases no two jobs hold the
  same display number, and a held display is served and is none of the displays taken
  by others. A job's sink bears the name its caller passes; in concurrent batch mode
  that name is the base name suffixed with the job's identifier, so the sink name of
  each job, and the monitor name, is distinct from every sibling's.
\<close>

theorem C1_serial_allocations_distinct:
  "(choose_display inUse n True = Inr d \<longrightarrow>
      \<not> inUse d \<and> n \<le> d \<and> d \<le> n + 10 \<and> (\<forall>k. n \<le> k \<and> k < d \<longrightarrow> inUse k))
   \<and> (phase (serial_run (fresh_world taken) evs) j = Idle
        \<and> choose_display (\<lambda>k. k \<in> servers (serial_run (fresh_world taken) evs)) n True = Inr d \<longrightarrow>
        holds (allocate j n (serial_run (fresh_world taken) evs)) j = Some d)
   \<and> (i \<noteq> j \<and> holds (serial_run (fresh_world taken) evs) i = Some a \<longrightarrow>
        holds (serial_run (fresh_world taken) evs) j \<noteq> Some a)
   \<and> (holds (serial_run (fresh_world taken) evs) i = Some a \<longrightarrow>
        a \<in> servers (serial_run (fresh_world taken) evs) \<and> a \<notin> taken)
   \<and> sinkName (setupAudioRecording name) = name
   \<and> (i \<noteq> j \<longrightarrow>
        sinkName (setupAudioRecording (fst (allocateSink baseName (jobId i) True)))
          \<noteq> sinkName (setupAudioRecording (fst (allocateSink baseName (jobId j) True))))
   \<and> (i \<noteq> j \<longrightarrow>
        monitorName (setupAudioRecording (fst (allocateSink baseName (jobId i) True)))
          \<noteq> monitorName (setupAudioRecording (fst (allocateSink baseName (jobId j) True))))"
proof -
  let ?w = "serial_run (fresh_world taken) evs"
  have inv: "serial_inv taken ?w"
    by (rule serial_inv_run) (rule serial_inv_fresh)
  note D = serial_invD [OF inv]
  have 1: "choose_display inUse n True = Inr d \<longrightarrow>
      \<not> inUse d \<and> n \<le> d \<and> d \<le> n + 10 \<and> (\<forall>k. n \<le> k \<and> k < d \<longrightarrow> inUse k)"
    using choose_display_first_free by blast
  have x: "xvfb_installed ?w"
    by (simp add: xvfb_installed_serial fresh_world_def)
  have 2: "holds (allocate j n ?w) j = Some d"
    if "phase ?w j = Idle" "choose_display (\<lambda>k. k \<in> servers ?w) n True = Inr d"
  proof -
    from choose_display_first_free [OF that(2)] have "d \<notin> servers ?w" by simp
    with that x show ?thesis
      by (simp add: allocate_def display_run_def holds_def)
  qed
  have 3: "holds ?w j \<noteq> Some a" if "i \<noteq> j" "holds ?w i = Some a"
  proof
    assume "holds ?w j = Some a"
    then obtain oj where j: "phase ?w j = Holding a oj"
      by (auto simp: holds_def split: job_phase.splits)
    from that(2) obtain oi where i: "phase ?w i = Holding a oi"
      by (auto simp: holds_def split: job_phase.splits)
    from D(4) [OF that(1) i] j show False by blast
  qed
  have 4: "a \<in> servers ?w \<and> a \<notin> taken" if "holds ?w i = Some a"
  proof -
    from that obtain oi where i: "phase ?w i = Holding a oi"
      by (auto simp: holds_def split: job_phase.splits)
    from D(3) [OF i] show ?thesis by simp
  qed
  have 5: "sinkName (setupAudioRecording name) = name"
    by (simp add: setupAudioRecording_def)
  have 6: "sinkName (setupAudioRecording (fst (allocateSink baseName (jobId i) True)))
          \<noteq> sinkName (setupAudioRecording (fst (allocateSink baseName (jobId j) True)))"
    if "i \<noteq> j"
    using parallel_sinks_distinct [OF that, of baseName] by (simp add: setupAudioRecording_def)
  have 7: "monitorName (setupAudioRecording (fst (allocateSink baseName (jobId i) True)))
          \<noteq> monitorName (setupAudioRecording (fst (allocateSink baseName (jobId j) True)))"
    if "i \<noteq> j"
    using parallel_sinks_distinct [OF that, of baseName] by (simp add: setupAudioRecording_def)
  from 1 2 3 4 5 6 7 show ?thesis by blast
qed

lemma example_schedule_holds:
  "holds (serial_run (fresh_world {}) example_schedule) 1 = Some 100"
  "holds (serial_run (fresh_world {}) example_schedule) 2 = Some 99"
  "phase (serial_run (fresh_world {}) example_schedule) 3 = Idle"
  "servers (serial_run (fresh_world {}) example_schedule) = {99, 100}"
  by (simp_all add: example_schedule_def serial_run_def allocate_def display_run_def
      fresh_world_def choose_display_def findAvailableDisplay_def find_loop.simps
      set_phase_def holds_def insert_commute)

lemma example_sinks:
  "fst (allocateSink ''recording_sink_'' (jobId 1) True) = ''recording_sink_job1''"
  "fst (allocateSink ''recording_sink_'' (jobId 2) True) = ''recording_sink_job2''"
  by (simp_all add: allocateSink_def jobId_def string_of_nat.simps digit_char_def)

theorem C1_serial_allocations_distinct_witness:
  "choose_display (\<lambda>k. k \<in> {99, 100}) 99 True = Inr 101
   \<and> phase (serial_run (fresh_world {}) example_schedule) 3 = Idle
   \<and> holds (allocate 3 99 (serial_run (fresh_world {}) example_schedule)) 3 = Some 101
   \<and> (1::nat) \<noteq> 2
   \<and> holds (serial_run (fresh_world {}) example_schedule) 1 = Some 100
   \<and> holds (serial_run (fresh_world {}) example_schedule) 2 = Some 99
   \<and> 100 \<in> servers (serial_run (fresh_world {}) example_schedule)
   \<and> sinkName (setupAudioRecording (fst (allocateSink ''recording_sink_'' (jobId 1) True)))
       = ''recording_sink_job1''
   \<and> sinkName (setupAudioRecording (fst (allocateSink ''recording_sink_'' (jobId 2) True)))
       = ''recording_sink_job2''"
proof -
  have c: "choose_display (\<lambda>k. k \<in> {99, 100}) 99 True = Inr 101"
    by (simp add: choose_display_def findAvailableDisplay_def find_loop.simps)
  show ?thesis
    using C1_serial_allocations_distinct
      [of "\<lambda>k. k \<in> {99, 100}" 99 101 "{}" example_schedule 3 1 100
        "fst (allocateSink ''recording_sink_'' (jobId 1) True)" "''recording_sink_''"]
      C1_serial_allocations_distinct
      [of "\<lambda>k. k \<in> {99, 100}" 99 101 "{}" example_schedule 3 1 100
        "fst (allocateSink ''recording_sink_'' (jobId 2) True)" "''recording_sink_''"]
      c example_schedule_holds example_sinks
    by simp
qed

text \<open>
  Claim C10. When a job's \<open>startDisplay\<close> resolves with display \<open>d\<close>, the process-wide
  \<open>DISPLAY\<close> variable becomes \<open>:d\<close>; this happens while another job still holds its
  own display \<open>a\<close>, whose value of the variable is thereby overwritten; \<open>stopDisplay\<close>
  leaves the variable as it is, so the earlier value is not restored; no event other
  than a poll changes the variable, and a poll changes it only to the number it asked
  for and found in use (which a poll that was under way when its job's promise was
  settled still does).
\<close>

theorem C10_DISPLAY_overwritten_not_restored:
  "(phase w j = Waiting d x \<and> d \<in> servers w \<longrightarrow>
      env_DISPLAY (display_step w (Ready j)) = Some (display_name d)
      \<and> holds (display_step w (Ready j)) j = Some d)
   \<and> (phase w i = Holding a oi \<and> i \<noteq> j \<and> phase w j = Waiting d x \<and> d \<in> servers w \<longrightarrow>
      holds (display_step w (Ready j)) i = Some a
      \<and> env_DISPLAY (display_step w (Ready j)) = Some (display_name d)
      \<and> env_DISPLAY (display_step (display_step w (Ready j)) (Stop j)) = Some (display_name d))
   \<and> env_DISPLAY (display_step w (Stop j)) = env_DISPLAY w
   \<and> ((\<forall>k. ev \<noteq> Ready k) \<longrightarrow> env_DISPLAY (display_step w ev) = env_DISPLAY w)
   \<and> (env_DISPLAY (display_step w (Ready j)) \<noteq> env_DISPLAY w \<longrightarrow>
        (\<exists>d'. polled w j = Some d' \<and> d' \<in> servers w
           \<and> env_DISPLAY (display_step w (Ready j)) = Some (display_name d')))"
proof -
  have 1: "env_DISPLAY (display_step w (Ready j)) = Some (display_name d)
      \<and> holds (display_step w (Ready j)) j = Some d"
    if "phase w j = Waiting d x" "d \<in> servers w"
    using that by (simp add: holds_def)
  have 2: "holds (display_step w (Ready j)) i = Some a"
    if "phase w i = Holding a oi" "i \<noteq> j" "phase w j = Waiting d x" "d \<in> servers w"
    using that by (simp add: holds_def)
  have 3: "env_DISPLAY (display_step w' (Stop j)) = env_DISPLAY w'" for w'
    by (simp split: job_phase.splits)
  have 4: "env_DISPLAY (display_step w ev) = env_DISPLAY w" if "\<forall>k. ev \<noteq> Ready k"
    using that
    by (cases ev) (auto split: job_phase.splits xvfb.splits sum.splits option.splits)
  have 5: "\<exists>d'. polled w j = Some d' \<and> d' \<in> servers w
           \<and> env_DISPLAY (display_step w (Ready j)) = Some (display_name d')"
    if "env_DISPLAY (display_step w (Ready j)) \<noteq> env_DISPLAY w"
    using that by (cases "phase w j") (auto simp: polled_def split: if_splits)
  from 1 2 3 [of w] 3 [of "display_step w (Ready j)"] 4 5 show ?thesis by metis
qed

lemma display_name_examples: "display_name 99 = '':99''" "display_name 100 = '':100''"
  by (simp_all add: display_name_def string_of_nat.simps digit_char_def)

lemma two_jobs_world_facts:
  "phase two_jobs_world 0 = Holding 99 True"
  "phase two_jobs_world 1 = Waiting 100 Listening"
  "100 \<in> servers two_jobs_world"
  "env_DISPLAY two_jobs_world = Some '':99''"
  by (simp_all add: two_jobs_world_def display_run_def fresh_world_def choose_display_def
      findAvailableDisplay_def find_loop.simps set_phase_def display_name_examples)

theorem C10_DISPLAY_overwritten_not_restored_witness:
  "phase two_jobs_world 0 = Holding 99 True
   \<and> phase two_jobs_world 1 = Waiting 100 Listening
   \<and> 100 \<in> servers two_jobs_world
   \<and> (0::nat) \<noteq> 1
   \<and> env_DISPLAY two_jobs_world = Some '':99''
   \<and> env_DISPLAY (display_step two_jobs_world (Ready 1)) = Some '':100''
   \<and> holds (display_step two_jobs_world (Ready 1)) 0 = Some 99
   \<and> holds (display_step two_jobs_world (Ready 1)) 1 = Some 100
   \<and> env_DISPLAY (display_step (display_step two_jobs_world (Ready 1)) (Stop 1)) = Some '':100''
   \<and> env_DISPLAY (display_step two_jobs_world (Stop 0)) = Some '':99''
   \<and> env_DISPLAY (display_step two_jobs_world (Bind 7 None)) = Some '':99''"
  using C10_DISPLAY_overwritten_not_restored
      [of two_jobs_world 1 100 Listening 0 99 True "Bind 7 None"]
    two_jobs_world_facts display_name_examples
  by simp

section \<open>Properties of a recording job\<close>

subsection \<open>Emergency teardown\<close>

lemma stages_triple_Nil: "(\<And>v. P v \<Longrightarrow> Q v) \<Longrightarrow> stages_triple P [] Q E D"
  by (simp add: stages_triple_def)

lemma stages_triple_Cons:
  assumes "stage_triple P s Q E D" "stages_triple Q ss R E D"
  shows "stages_triple P (s # ss) R E D"
  unfolding stages_triple_def
proof (intro allI impI)
  fix v assume p: "P v"
  obtain r v' where sv: "s v = (r, v')" by (cases "s v")
  show "case run_stages (s # ss) v of
           (Continue, v') \<Rightarrow> R v' | (Throw e, v') \<Rightarrow> E v' | (Diverge, v') \<Rightarrow> D v'"
  proof (cases r)
    case Continue
    with assms(1) p sv have "Q v'" by (auto simp: stage_triple_def)
    with assms(2) have "case run_stages ss v' of
           (Continue, v') \<Rightarrow> R v' | (Throw e, v') \<Rightarrow> E v' | (Diverge, v') \<Rightarrow> D v'"
      by (simp add: stages_triple_def)
    with sv Continue show ?thesis by simp
  next
    case (Throw e)
    with assms(1) p sv have "E v'" by (auto simp: stage_triple_def)
    with sv Throw show ?thesis by simp
  next
    case Diverge
    with assms(1) p sv have "D v'" by (auto simp: stage_triple_def)
    with sv Diverge show ?thesis by simp
  qed
qed

lemma no_release_log [simp]:
  "no_release (log_call e v) = (no_release v \<and> \<not> is_release e)"
  by (simp add: no_release_def log_call_def)

lemma no_release_logs [simp]:
  "no_release (log_calls es v) = (no_release v \<and> (\<forall>e\<in>set es. \<not> is_release e))"
  by (auto simp: no_release_def log_calls_def filter_empty_conv)

lemma vars_log [simp]:
  "displayInfo (log_call e v) = displayInfo v" "audioInfo (log_call e v) = audioInfo v"
  "browser (log_call e v) = browser v" "ffmpegProcess (log_call e v) = ffmpegProcess v"
  "displayInfo (log_calls es v) = displayInfo v" "audioInfo (log_calls es v) = audioInfo v"
  "browser (log_calls es v) = browser v" "ffmpegProcess (log_calls es v) = ffmpegProcess v"
  by (simp_all add: log_call_def log_calls_def)

lemma no_release_upd [simp]:
  "no_release (v\<lparr>displayInfo := a\<rparr>) = no_release v"
  "no_release (v\<lparr>audioInfo := b\<rparr>) = no_release v"
  "no_release (v\<lparr>browser := c\<rparr>) = no_release v"
  "no_release (v\<lparr>ffmpegProcess := d\<rparr>) = no_release v"
  "no_release (v\<lparr>videoMetadata_duration := x\<rparr>) = no_release v"
  "no_release (v\<lparr>totalTime := y\<rparr>) = no_release v"
  by (simp_all add: no_release_def)

lemma t_startDisplay:
  "stage_triple at_start (stage_startDisplay w) (has_display w) (vars_match opts w) (\<lambda>v. True)"
  by (auto simp: stage_triple_def stage_startDisplay_def at_start_def has_display_def
      vars_match_def acquired_capture_def acquired_browser_def acquired_audio_def
      acquired_display_def split: sum.splits)

lemma t_setupAudio:
  "stage_triple (has_display w) (stage_setupAudio opts w) (has_audio w) (vars_match opts w) (\<lambda>v. True)"
  by (auto simp: stage_triple_def stage_setupAudio_def has_display_def has_audio_def
      vars_match_def acquired_capture_def acquired_browser_def acquired_audio_def
      split: option.splits)

lemma t_launchBrowser:
  "stage_triple (has_audio w) (stage_launchBrowser w) (has_browser w) (vars_match opts w) (\<lambda>v. True)"
  by (auto simp: stage_triple_def stage_launchBrowser_def has_audio_def has_browser_def
      vars_match_def acquired_capture_def acquired_browser_def acquired_audio_def
      split: option.splits)


lemma t_createPage:
  "stage_triple (has_browser w) (call CreatePage (createPage_throws w))
     (\<lambda>v. has_browser w v \<and> createPage_throws w = None) (vars_match opts w) (\<lambda>v. True)"
  by (auto simp: stage_triple_def call_def has_browser_def vars_match_def
      acquired_capture_def acquired_browser_def acquired_audio_def split: option.splits)

lemma t_navigate:
  "stage_triple (\<lambda>v. has_browser w v \<and> createPage_throws w = None)
     (call Navigate (navigateToUrl_throws w))
     (\<lambda>v. has_browser w v \<and> createPage_throws w = None \<and> navigateToUrl_throws w = None)
     (vars_match opts w) (\<lambda>v. True)"
  by (auto simp: stage_triple_def call_def has_browser_def vars_match_def
      acquired_capture_def acquired_browser_def acquired_audio_def split: option.splits)

lemma t_fullscreen:
  "stage_triple (\<lambda>v. has_browser w v \<and> K) (call SetFullscreen None)
     (\<lambda>v. has_browser w v \<and> K) E D"
  by (auto simp: stage_triple_def call_def has_browser_def)

lemma t_findVideo:
  "stage_triple
     (\<lambda>v. has_browser w v \<and> createPage_throws w = None \<and> navigateToUrl_throws w = None)
     (call FindVideo (findVideoElement_throws w))
     (\<lambda>v. has_browser w v \<and> createPage_throws w = None \<and> navigateToUrl_throws w = None
          \<and> findVideoElement_throws w = None)
     (vars_match opts w) (\<lambda>v. True)"
  by (auto simp: stage_triple_def call_def has_browser_def vars_match_def
      acquired_capture_def acquired_browser_def acquired_audio_def split: option.splits)

lemma t_clicks:
  "stage_triple (\<lambda>v. has_browser w v \<and> K) (stage_clickSelectors opts)
     (\<lambda>v. has_browser w v \<and> K) E D"
  by (auto simp: stage_triple_def stage_clickSelectors_def has_browser_def)

lemma t_metadata:
  "stage_triple
     (\<lambda>v. has_browser w v \<and> page_ready w)
     (stage_getVideoMetadata w)
     (\<lambda>v. has_browser w v \<and> page_ready w
          \<and> getVideoMetadata_returns w = Inr (videoMetadata_duration v))
     (vars_match opts w) (\<lambda>v. True)"
  by (auto simp: stage_triple_def stage_getVideoMetadata_def has_browser_def vars_match_def
      acquired_capture_def acquired_browser_def acquired_audio_def split: sum.splits)

lemma t_duration:
  "stage_triple
     (\<lambda>v. has_browser w v \<and> page_ready w
          \<and> getVideoMetadata_returns w = Inr (videoMetadata_duration v))
     (stage_duration opts)
     (\<lambda>v. has_browser w v \<and> page_ready w
          \<and> (case getVideoMetadata_returns w of Inl err \<Rightarrow> False
              | Inr d \<Rightarrow> \<not> isl (actualDuration_recordUrl (opt_autoDetectDuration opts) d
                                  (opt_duration opts))))
     (vars_match opts w) (\<lambda>v. True)"
  by (auto simp: stage_triple_def stage_duration_def has_browser_def vars_match_def
      acquired_capture_def acquired_browser_def acquired_audio_def split: sum.splits)

lemma t_startRecording:
  "stage_triple
     (\<lambda>v. has_browser w v \<and> page_ready w
          \<and> (case getVideoMetadata_returns w of Inl err \<Rightarrow> False
              | Inr d \<Rightarrow> \<not> isl (actualDuration_recordUrl (opt_autoDetectDuration opts) d
                                  (opt_duration opts))))
     (stage_startRecording w)
     (has_capture opts w)
     (vars_match opts w) (\<lambda>v. True)"
  by (auto simp: stage_triple_def stage_startRecording_def has_browser_def has_capture_def
      vars_match_def page_ready_def
      acquired_capture_def acquired_browser_def acquired_audio_def split: sum.splits)

lemma playVideo_no_release: "\<forall>e\<in>set (snd (play_loop opts pg k)). \<not> is_release e"
proof (induction opts pg k rule: play_loop.induct)
  case (1 opts pg attempt)
  have b: "\<forall>e\<in>set (snd (attempt_body opts (pg attempt))). \<not> is_release e"
    by (auto simp: attempt_body_def Let_def split: option.splits sum.splits play_result.splits)
  show ?case
  proof (cases "attempt \<le> maxAttempts opts")
    case False
    then show ?thesis by (subst play_loop.simps) simp
  next
    case True
    obtain en evs where ab: "attempt_body opts (pg attempt) = (en, evs)"
      by (cases "attempt_body opts (pg attempt)")
    with b have evs: "\<forall>e\<in>set evs. \<not> is_release e" by simp
    show ?thesis
    proof (cases en)
      case Return
      with True ab evs show ?thesis by (subst play_loop.simps) simp
    next
      case Retry
      from "1.IH"(1) [OF True ab [symmetric] Retry refl]
      have "\<forall>e\<in>set (snd (play_loop opts pg (Suc attempt))). \<not> is_release e" by simp
      with True ab evs Retry show ?thesis
        by (subst play_loop.simps) (auto simp: split_beta)
    next
      case (Caught e)
      show ?thesis
      proof (cases "attempt = maxAttempts opts")
        case t: True
        with True ab evs Caught show ?thesis by (subst play_loop.simps) simp
      next
        case f: False
        from "1.IH"(2) [OF True ab [symmetric] Caught f]
        have "\<forall>e\<in>set (snd (play_loop opts pg (Suc attempt))). \<not> is_release e" by simp
        with True ab evs Caught f show ?thesis
          by (subst play_loop.simps) (auto simp: split_beta)
      qed
    qed
  qed
qed

lemma capture_match: "has_capture opts w v \<Longrightarrow> vars_match opts w v"
  by (auto simp: has_capture_def vars_match_def acquired_capture_def acquired_browser_def
      acquired_audio_def)

lemma t_playVideo:
  "stage_triple (has_capture opts w) (stage_playVideo w) (has_capture opts w) (vars_match opts w) (\<lambda>v. True)"
  unfolding stage_triple_def
proof (intro allI impI)
  fix v assume h: "has_capture opts w v"
  obtain r evs where pv: "playVideo default_play_options (page_behaviour w) = (r, evs)"
    by (cases "playVideo default_play_options (page_behaviour w)")
  have "\<forall>e\<in>set evs. \<not> is_release e"
    using playVideo_no_release [of default_play_options "page_behaviour w" 1] pv
    by (simp add: playVideo_def)
  with h have c: "has_capture opts w (log_calls evs v)"
    by (simp add: has_capture_def)
  show "case stage_playVideo w v of
          (Continue, v') \<Rightarrow> has_capture opts w v'
        | (Throw e, v') \<Rightarrow> vars_match opts w v'
        | (Diverge, v') \<Rightarrow> True"
    using pv c capture_match [OF c]
    by (cases r) (simp_all add: stage_playVideo_def)
qed

lemma t_routeAudio:
  "stage_triple (has_capture opts w) (stage_routeAudio opts w) (has_capture opts w)
     (vars_match opts w) (\<lambda>v. True)"
proof -
  have "has_capture opts w (log_call MoveSinkInputs v)" if "has_capture opts w v" for v
    using that by (simp add: has_capture_def)
  then show ?thesis
    by (auto simp: stage_triple_def stage_routeAudio_def call_def split: option.splits
        intro: capture_match)
qed

lemma t_wait:
  "stage_triple (has_capture opts w) stage_wait (\<lambda>v. acquired_capture opts w)
     (vars_match opts w) (\<lambda>v. True)"
  by (auto simp: stage_triple_def stage_wait_def has_capture_def split: option.splits)

lemma t_stopRecording:
  "stage_triple (\<lambda>v. K) (stage_stopRecording w) (\<lambda>v. K) E (\<lambda>v. True)"
  by (auto simp: stage_triple_def stage_stopRecording_def)

lemma t_closeBrowser: "stage_triple (\<lambda>v. K) (stage_closeBrowser w) (\<lambda>v. K) E D"
  by (auto simp: stage_triple_def stage_closeBrowser_def closeBrowser_throws_def
      caught_and_logged_def split: option.splits)

lemma t_stopDisplay: "stage_triple (\<lambda>v. K) stage_stopDisplay (\<lambda>v. K) E D"
  by (auto simp: stage_triple_def stage_stopDisplay_def)

lemma t_cleanupAudio: "stage_triple (\<lambda>v. K) (stage_cleanupAudio w) (\<lambda>v. K) E D"
  by (auto simp: stage_triple_def stage_cleanupAudio_def cleanupAudioRecording_throws_def
      caught_and_logged_def split: option.splits)

lemma try_triple:
  "stages_triple at_start
     [stage_startDisplay w, stage_setupAudio opts w, stage_launchBrowser w,
      call CreatePage (createPage_throws w), call Navigate (navigateToUrl_throws w),
      call SetFullscreen None, call FindVideo (findVideoElement_throws w),
      stage_clickSelectors opts, stage_getVideoMetadata w, stage_duration opts,
      stage_startRecording w, stage_playVideo w, stage_routeAudio opts w, stage_wait,
      stage_stopRecording w, stage_closeBrowser w, stage_stopDisplay, stage_cleanupAudio w]
     (\<lambda>v. acquired_capture opts w) (vars_match opts w) (\<lambda>v. True)"
  apply (rule stages_triple_Cons [OF t_startDisplay])
  apply (rule stages_triple_Cons [OF t_setupAudio])
  apply (rule stages_triple_Cons [OF t_launchBrowser])
  apply (rule stages_triple_Cons [OF t_createPage])
  apply (rule stages_triple_Cons [OF t_navigate])
  apply (rule stages_triple_Cons [OF t_fullscreen])
  apply (rule stages_triple_Cons [OF t_findVideo])
  apply (fold page_ready_def)
  apply (rule stages_triple_Cons [OF t_clicks])
  apply (rule stages_triple_Cons [OF t_metadata])
  apply (rule stages_triple_Cons [OF t_duration])
  apply (rule stages_triple_Cons [OF t_startRecording])
  apply (rule stages_triple_Cons [OF t_playVideo])
  apply (rule stages_triple_Cons [OF t_routeAudio])
  apply (rule stages_triple_Cons [OF t_wait])
  apply (rule stages_triple_Cons [OF t_stopRecording])
  apply (rule stages_triple_Cons [OF t_closeBrowser])
  apply (rule stages_triple_Cons [OF t_stopDisplay])
  apply (rule stages_triple_Cons [OF t_cleanupAudio])
  apply (rule stages_triple_Nil)
  apply assumption
  done

lemma try_continue_capture:
  assumes "recordUrl_try opts w = (Continue, v)"
  shows "acquired_capture opts w"
proof -
  have "at_start initial_vars"
    by (simp add: at_start_def initial_vars_def no_release_def)
  with try_triple [of w opts] assms show ?thesis
    unfolding stages_triple_def recordUrl_try_def by fastforce
qed

lemma try_throw_match:
  assumes "recordUrl_try opts w = (Throw err, v)"
  shows "vars_match opts w v"
proof -
  have "at_start initial_vars"
    by (simp add: at_start_def initial_vars_def no_release_def)
  with try_triple [of w opts] assms show ?thesis
    unfolding stages_triple_def recordUrl_try_def by fastforce
qed

lemma caught_and_logged_None [simp]: "caught_and_logged x = None"
  by (simp add: caught_and_logged_def split: option.splits)

lemma call_swallowed_log [simp]: "call_swallowed e thrown v = log_call e v"
  by (simp add: call_swallowed_def split: option.splits)

lemmas emergency_defs = emergency_cleanup_def emergency_stopRecording_def
  emergency_closeBrowser_def emergency_stopDisplay_def emergency_cleanupAudio_def
  log_call_def

lemma match_capture_stops:
  assumes "vars_match opts w v" "capture_stops w"
  shows "stopRecording_returns w (ffmpegProcess v)"
proof (cases "ffmpegProcess v")
  case None
  then show ?thesis by (simp add: stopRecording_returns_def)
next
  case (Some p)
  with assms(1) have "startRecording_returns w = Inr p" by (simp add: vars_match_def)
  with assms(2) Some show ?thesis by (simp add: capture_stops_def)
qed

lemma emergency_trace:
  assumes "vars_match opts w v" "capture_stops w"
  shows "fst (emergency_cleanup w v) = Continue
     \<and> trace (snd (emergency_cleanup w v)) = trace v @ releases_owed opts w"
  using assms(1) match_capture_stops [OF assms]
  by (auto simp: vars_match_def emergency_defs releases_owed_def
      closeBrowser_throws_def cleanupAudioRecording_throws_def)

lemma emergency_stalls:
  assumes "vars_match opts w v" "acquired_capture opts w" "\<not> capture_stops w"
  shows "emergency_cleanup w v = (Diverge, log_call (StopRecording 5000) v)"
proof -
  from assms(1,2) obtain p where p: "ffmpegProcess v = Some p" "startRecording_returns w = Inr p"
    by (auto simp: vars_match_def)
  with assms(3) have "\<not> stopRecording_returns w (ffmpegProcess v)"
    by (simp add: capture_stops_def)
  with p show ?thesis by (simp add: emergency_defs)
qed

lemma releases_owed_are_releases: "filter is_release (releases_owed opts w) = releases_owed opts w"
  by (simp add: releases_owed_def)

lemma releases_owed_distinct: "distinct (releases_owed opts w)"
  by (simp add: releases_owed_def)

lemma inner_errors_irrelevant:
  "recordUrl opts (w\<lparr>browser_close_throws := bc, removeVirtualSink_throws := rs\<rparr>) = recordUrl opts w"
proof -
  let ?w = "w\<lparr>browser_close_throws := bc, removeVirtualSink_throws := rs\<rparr>"
  have r: "stopRecording_returns ?w = stopRecording_returns w"
    by (auto simp add: fun_eq_iff stopRecording_returns_def split: option.splits)
  have c: "closeBrowser_throws ?w = closeBrowser_throws w"
    "cleanupAudioRecording_throws ?w = cleanupAudioRecording_throws w"
    by (simp_all add: closeBrowser_throws_def cleanupAudioRecording_throws_def)
  have s: "stage_startDisplay ?w = stage_startDisplay w"
    "stage_setupAudio opts ?w = stage_setupAudio opts w"
    "stage_launchBrowser ?w = stage_launchBrowser w"
    "stage_getVideoMetadata ?w = stage_getVideoMetadata w"
    "stage_startRecording ?w = stage_startRecording w"
    "stage_playVideo ?w = stage_playVideo w"
    "stage_routeAudio opts ?w = stage_routeAudio opts w"
    "stage_stopRecording ?w = stage_stopRecording w"
    "stage_closeBrowser ?w = stage_closeBrowser w"
    "stage_cleanupAudio ?w = stage_cleanupAudio w"
    by (auto simp add: fun_eq_iff stage_startDisplay_def stage_setupAudio_def
        stage_launchBrowser_def stage_getVideoMetadata_def stage_startRecording_def
        stage_playVideo_def stage_routeAudio_def stage_stopRecording_def r
        stage_closeBrowser_def stage_cleanupAudio_def c
        split: option.splits sum.splits)
  have t: "recordUrl_try opts ?w = recordUrl_try opts w"
    by (simp add: recordUrl_try_def s)
  have em: "emergency_stopRecording ?w = emergency_stopRecording w"
    "emergency_closeBrowser ?w = emergency_closeBrowser w"
    "emergency_cleanupAudio ?w = emergency_cleanupAudio w"
    by (simp_all add: fun_eq_iff emergency_stopRecording_def emergency_closeBrowser_def
        emergency_cleanupAudio_def r c)
  have e: "emergency_cleanup ?w = emergency_cleanup w"
    by (simp add: fun_eq_iff emergency_cleanup_def em)
  show ?thesis
    unfolding recordUrl_def t e by simp
qed

lemma launch_failure_run:
  assumes "startDisplay_returns w = Inr di" "setupAudioRecording_throws w = None"
    "launchBrowser_throws w = Some err"
  shows "recordUrl_try opts w =
      (Throw err, initial_vars\<lparr>displayInfo := Some di,
         audioInfo := Some (setupAudioRecording (opt_sinkName opts)),
         trace := [StartDisplay, SetupAudio, LaunchBrowser]\<rparr>)"
  using assms
  by (simp add: recordUrl_try_def stage_startDisplay_def stage_setupAudio_def
      stage_launchBrowser_def log_call_def initial_vars_def)

text \<open>
  What the emergency teardown does when \<open>stopRecording\<close> returns for the capture
  process of the job. Whenever a statement of the \<open>try\<close> block throws (the up-front
  argument check having passed), \<open>recordUrl\<close> resolves with an unsuccessful record
  that carries the message of that very error; up to the throw no release call has
  been made, and the emergency cleanup then makes exactly the release calls owed for
  the resources acquired before the failure (capture stop, browser close, display
  stop, audio cleanup, in this order), each once and none for a resource not acquired.
\<close>

lemma emergency_teardown:
  assumes "\<not> duration_args_rejected (opt_duration opts) (opt_autoDetectDuration opts)"
    and "recordUrl_try opts w = (Throw err, v)"
    and "capture_stops w"
  shows "recordUrl opts w =
          (Resolved \<lparr>success = False, result_outputPath = opt_outputPath opts,
                     result_error = Some (message err)\<rparr>,
           trace v @ releases_owed opts w)"
    and "filter is_release (trace v) = []"
    and "filter is_release (snd (recordUrl opts w)) = releases_owed opts w"
    and "distinct (releases_owed opts w)"
proof -
  from try_throw_match [OF assms(2)] have m: "vars_match opts w v" .
  then show n: "filter is_release (trace v) = []"
    by (simp add: vars_match_def no_release_def)
  obtain out v' where e: "emergency_cleanup w v = (out, v')"
    by (cases "emergency_cleanup w v")
  with emergency_trace [OF m assms(3)]
  have "out = Continue" "trace v' = trace v @ releases_owed opts w" by simp_all
  with assms(1,2) e show r: "recordUrl opts w =
          (Resolved \<lparr>success = False, result_outputPath = opt_outputPath opts,
                     result_error = Some (message err)\<rparr>,
           trace v @ releases_owed opts w)"
    by (simp add: recordUrl_def)
  show "filter is_release (snd (recordUrl opts w)) = releases_owed opts w"
    by (simp add: r n releases_owed_are_releases)
  show "distinct (releases_owed opts w)" by (rule releases_owed_distinct)
qed

text \<open>
  And when it does not: an error thrown after the capture was started leaves the job
  pending at the \<open>stopRecording\<close> call of its emergency cleanup.
\<close>

lemma emergency_teardown_stalls:
  assumes "\<not> duration_args_rejected (opt_duration opts) (opt_autoDetectDuration opts)"
    and "recordUrl_try opts w = (Throw err, v)"
    and "acquired_capture opts w" "\<not> capture_stops w"
  shows "recordUrl opts w = (NeverSettles, trace v @ [StopRecording 5000])"
  using assms(1,2) emergency_stalls [OF try_throw_match [OF assms(2)] assms(3,4)]
  by (simp add: recordUrl_def log_call_def)

subsection \<open>Capture starts before playback\<close>

lemma before_capture_append [simp]:
  "before_capture (xs @ ys) = (before_capture xs \<and> before_capture ys)"
  by (auto simp: before_capture_def)

lemma before_capture_Nil [simp]: "before_capture []"
  by (simp add: before_capture_def)

lemma before_capture_no_playback:
  "before_capture tr \<Longrightarrow> no_playback_before_capture tr"
  by (auto simp: before_capture_def no_playback_before_capture_def dest: set_takeWhileD)

lemma takeWhile_before_capture:
  "before_capture pre \<Longrightarrow>
     takeWhile (\<lambda>e. e \<noteq> StartRecording) (pre @ StartRecording # post) = pre"
  by (induction pre) (auto simp: before_capture_def)

lemma reached_capture_no_playback:
  "before_capture pre \<Longrightarrow> no_playback_before_capture (pre @ StartRecording # post)"
  by (auto simp: no_playback_before_capture_def takeWhile_before_capture before_capture_def)

lemma settled_no_playback:
  assumes "settled (StartRecording # rest) tr"
  shows "no_playback_before_capture tr"
  using assms reached_capture_no_playback
  by (auto simp: settled_def)

lemma settled_append: "settled start tr \<Longrightarrow> settled start (tr @ es)"
  by (auto simp: settled_def) (metis append.assoc)

lemma played_append: "settled_and_played start tr \<Longrightarrow> settled_and_played start (tr @ es)"
  unfolding settled_and_played_def
proof (elim exE conjE)
  fix pre post assume "tr = pre @ start @ post" "before_capture pre" "VideoPlay \<in> set post"
  then have "tr @ es = pre @ start @ (post @ es) \<and> before_capture pre \<and> VideoPlay \<in> set (post @ es)"
    by simp
  then show "\<exists>pre post. tr @ es = pre @ start @ post \<and> before_capture pre \<and> VideoPlay \<in> set post"
    by blast
qed

lemma no_playback_append_quiet:
  assumes "no_playback_before_capture tr" "\<forall>e\<in>set es. \<not> is_playback e"
  shows "no_playback_before_capture (tr @ es)"
proof (cases "StartRecording \<in> set tr")
  case True
  then have "takeWhile (\<lambda>e. e \<noteq> StartRecording) (tr @ es) = takeWhile (\<lambda>e. e \<noteq> StartRecording) tr"
    by (intro takeWhile_append1) auto
  with assms show ?thesis by (simp add: no_playback_before_capture_def)
next
  case False
  then have "takeWhile (\<lambda>e. e \<noteq> StartRecording) (tr @ es)
      = tr @ takeWhile (\<lambda>e. e \<noteq> StartRecording) es"
    by (intro takeWhile_append2) auto
  moreover from False have t: "takeWhile (\<lambda>e. e \<noteq> StartRecording) tr = tr"
    by (intro takeWhile_eq_all_conv [THEN iffD2]) auto
  moreover from assms(1) have "\<forall>e\<in>set tr. \<not> is_playback e"
    unfolding no_playback_before_capture_def t .
  ultimately show ?thesis
    using assms(2) by (auto simp: no_playback_before_capture_def dest: set_takeWhileD)
qed

text \<open>Statements classified.\<close>

lemma appends_call: "appends (call e x)"
  by (auto simp: appends_def call_def log_call_def split: option.splits)

lemma quiet_call: "\<not> is_playback e \<Longrightarrow> e \<noteq> StartRecording \<Longrightarrow> quiet (call e x)"
  by (auto simp: quiet_def call_def log_call_def before_capture_def split: option.splits)

lemma quiet_appends: "quiet s \<Longrightarrow> appends s"
  by (auto simp: quiet_def appends_def)

lemma quiet_stages:
  "quiet (stage_startDisplay w)" "quiet (stage_setupAudio opts w)" "quiet (stage_setupAudio_main w)"
  "quiet (stage_launchBrowser w)" "quiet (stage_clickSelectors opts)"
  "quiet (stage_getVideoMetadata w)" "quiet (stage_duration opts)" "quiet (stage_duration_main opts)"
  "quiet (stage_routeAudio opts w)" "quiet stage_wait" "quiet (stage_stopRecording w)"
  "quiet (stage_stopRecording_main w)" "quiet (stage_closeBrowser w)" "quiet stage_stopDisplay"
  "quiet (stage_cleanupAudio w)"
  by (auto simp: quiet_def stage_startDisplay_def stage_setupAudio_def stage_setupAudio_main_def
      stage_launchBrowser_def stage_clickSelectors_def stage_getVideoMetadata_def
      stage_duration_def stage_duration_main_def stage_routeAudio_def stage_wait_def
      stage_stopRecording_def stage_stopRecording_main_def stage_closeBrowser_def
      stage_stopDisplay_def stage_cleanupAudio_def call_def
      log_call_def log_calls_def before_capture_def
      split: sum.splits option.splits)

lemma t_quiet:
  assumes "quiet s"
  shows "stage_triple (\<lambda>v. before_capture (trace v)) s (\<lambda>v. before_capture (trace v))
           (\<lambda>v. no_playback_before_capture (trace v))
           (\<lambda>v. no_playback_before_capture (trace v))"
  unfolding stage_triple_def
proof (intro allI impI)
  fix v :: job_vars
  assume b: "before_capture (trace v)"
  from assms obtain es where es: "trace (snd (s v)) = trace v @ es" "before_capture es"
    unfolding quiet_def by blast
  with b have "before_capture (trace (snd (s v)))" by simp
  then show "case s v of (Continue, v') \<Rightarrow> before_capture (trace v')
      | (Throw e, v') \<Rightarrow> no_playback_before_capture (trace v') | (Diverge, v') \<Rightarrow> no_playback_before_capture (trace v')"
    by (cases "s v"; cases "fst (s v)") (auto intro: before_capture_no_playback)
qed

lemma t_appends_settled:
  assumes "appends s"
  shows "stage_triple (\<lambda>v. settled (StartRecording # rest) (trace v)) s
           (\<lambda>v. settled (StartRecording # rest) (trace v))
           (\<lambda>v. no_playback_before_capture (trace v))
           (\<lambda>v. no_playback_before_capture (trace v))"
  unfolding stage_triple_def
proof (intro allI impI)
  fix v :: job_vars
  assume b: "settled (StartRecording # rest) (trace v)"
  from assms obtain es where es: "trace (snd (s v)) = trace v @ es"
    unfolding appends_def by blast
  with b have "settled (StartRecording # rest) (trace (snd (s v)))"
    by (simp add: settled_append)
  then show "case s v of (Continue, v') \<Rightarrow> settled (StartRecording # rest) (trace v')
      | (Throw e, v') \<Rightarrow> no_playback_before_capture (trace v') | (Diverge, v') \<Rightarrow> no_playback_before_capture (trace v')"
    by (cases "s v"; cases "fst (s v)") (auto intro: settled_no_playback)
qed

lemma played_settled: "settled_and_played start tr \<Longrightarrow> settled start tr"
  by (auto simp: settled_and_played_def settled_def)

lemma t_appends_played:
  assumes "appends s"
  shows "stage_triple (\<lambda>v. settled_and_played (StartRecording # rest) (trace v)) s
           (\<lambda>v. settled_and_played (StartRecording # rest) (trace v))
           (\<lambda>v. no_playback_before_capture (trace v))
           (\<lambda>v. no_playback_before_capture (trace v))"
  unfolding stage_triple_def
proof (intro allI impI)
  fix v :: job_vars
  assume b: "settled_and_played (StartRecording # rest) (trace v)"
  from assms obtain es where es: "trace (snd (s v)) = trace v @ es"
    unfolding appends_def by blast
  with b have "settled_and_played (StartRecording # rest) (trace (snd (s v)))"
    by (simp add: played_append)
  then show "case s v of (Continue, v') \<Rightarrow> settled_and_played (StartRecording # rest) (trace v')
      | (Throw e, v') \<Rightarrow> no_playback_before_capture (trace v') | (Diverge, v') \<Rightarrow> no_playback_before_capture (trace v')"
    by (cases "s v"; cases "fst (s v)") (auto intro: settled_no_playback played_settled)
qed


lemma play_loop_played:
  "fst (play_loop opts pg k) = Inr u \<Longrightarrow> VideoPlay \<in> set (snd (play_loop opts pg k))"
proof (induction opts pg k rule: play_loop.induct)
  case (1 opts pg attempt)
  have b: "fst (attempt_body opts (pg attempt)) = Return \<Longrightarrow>
      VideoPlay \<in> set (snd (attempt_body opts (pg attempt)))"
    by (auto simp: attempt_body_def Let_def split: option.splits sum.splits play_result.splits
        if_splits)
  show ?case
  proof (cases "attempt \<le> maxAttempts opts")
    case False
    with "1.prems" show ?thesis by (subst (asm) play_loop.simps) simp
  next
    case True
    obtain en evs where ab: "attempt_body opts (pg attempt) = (en, evs)"
      by (cases "attempt_body opts (pg attempt)")
    show ?thesis
    proof (cases en)
      case Return
      with b ab have "VideoPlay \<in> set evs" by simp
      with True ab Return show ?thesis by (subst play_loop.simps) simp
    next
      case Retry
      from "1.prems" True ab Retry have "fst (play_loop opts pg (Suc attempt)) = Inr u"
        by (subst (asm) play_loop.simps) (simp add: split_beta)
      from "1.IH"(1) [OF True ab [symmetric] Retry refl this]
      have "VideoPlay \<in> set (snd (play_loop opts pg (Suc attempt)))" .
      with True ab Retry show ?thesis
        by (subst play_loop.simps) (simp add: split_beta)
    next
      case (Caught e)
      show ?thesis
      proof (cases "attempt = maxAttempts opts")
        case t: True
        with "1.prems" True ab Caught show ?thesis
          by (subst (asm) play_loop.simps) simp
      next
        case f: False
        from "1.prems" True ab Caught f have "fst (play_loop opts pg (Suc attempt)) = Inr u"
          by (subst (asm) play_loop.simps) (simp add: split_beta)
        from "1.IH"(2) [OF True ab [symmetric] Caught f this]
        have "VideoPlay \<in> set (snd (play_loop opts pg (Suc attempt)))" .
        with True ab Caught f show ?thesis
          by (subst play_loop.simps) (simp add: split_beta)
      qed
    qed
  qed
qed

lemma t_startRecording_order:
  "stage_triple (\<lambda>v. before_capture (trace v)) (stage_startRecording w)
     (\<lambda>v. settled [StartRecording, Sleep 1000] (trace v))
     (\<lambda>v. no_playback_before_capture (trace v))
     (\<lambda>v. no_playback_before_capture (trace v))"
  unfolding stage_triple_def
proof (intro allI impI)
  fix v :: job_vars
  assume b: "before_capture (trace v)"
  show "case stage_startRecording w v of
      (Continue, v') \<Rightarrow> settled [StartRecording, Sleep 1000] (trace v')
    | (Throw e, v') \<Rightarrow> no_playback_before_capture (trace v') | (Diverge, v') \<Rightarrow> no_playback_before_capture (trace v')"
  proof (cases "startRecording_returns w")
    case (Inl err)
    with reached_capture_no_playback [OF b, of "[]"] show ?thesis
      by (simp add: stage_startRecording_def log_call_def)
  next
    case (Inr p)
    have "settled [StartRecording, Sleep 1000] (trace v @ [StartRecording, Sleep 1000])"
      unfolding settled_def using b by (intro exI [of _ "trace v"] exI [of _ "[]"]) simp
    with Inr show ?thesis
      by (simp add: stage_startRecording_def log_calls_def)
  qed
qed

lemma t_playVideo_order:
  "stage_triple (\<lambda>v. settled (StartRecording # rest) (trace v)) (stage_playVideo w)
     (\<lambda>v. settled_and_played (StartRecording # rest) (trace v))
     (\<lambda>v. no_playback_before_capture (trace v))
     (\<lambda>v. no_playback_before_capture (trace v))"
  unfolding stage_triple_def
proof (intro allI impI)
  fix v :: job_vars
  assume b: "settled (StartRecording # rest) (trace v)"
  obtain r evs where pv: "playVideo default_play_options (page_behaviour w) = (r, evs)"
    by (cases "playVideo default_play_options (page_behaviour w)")
  from b obtain pre post where d: "trace v = pre @ (StartRecording # rest) @ post"
    "before_capture pre" unfolding settled_def by blast
  show "case stage_playVideo w v of
      (Continue, v') \<Rightarrow> settled_and_played (StartRecording # rest) (trace v')
    | (Throw e, v') \<Rightarrow> no_playback_before_capture (trace v') | (Diverge, v') \<Rightarrow> no_playback_before_capture (trace v')"
  proof (cases r)
    case (Inl err)
    from settled_no_playback [OF settled_append [OF b, of evs]] pv Inl show ?thesis
      by (simp add: stage_playVideo_def log_calls_def)
  next
    case (Inr u)
    with pv play_loop_played [of default_play_options "page_behaviour w" 1 u]
    have "VideoPlay \<in> set evs" by (simp add: playVideo_def)
    with d have "trace v @ evs = pre @ (StartRecording # rest) @ (post @ evs)
        \<and> before_capture pre \<and> VideoPlay \<in> set (post @ evs)" by simp
    then have "settled_and_played (StartRecording # rest) (trace v @ evs)"
      unfolding settled_and_played_def by blast
    with pv Inr show ?thesis
      by (simp add: stage_playVideo_def log_calls_def)
  qed
qed

lemma t_weaken_pre:
  assumes "stage_triple P s Q E D" "\<And>v. P' v \<Longrightarrow> P v"
  shows "stage_triple P' s Q E D"
  using assms by (simp add: stage_triple_def)

lemma recordUrl_try_order:
  "stages_triple (\<lambda>v. before_capture (trace v))
     [stage_startDisplay w, stage_setupAudio opts w, stage_launchBrowser w,
      call CreatePage (createPage_throws w), call Navigate (navigateToUrl_throws w),
      call SetFullscreen None, call FindVideo (findVideoElement_throws w),
      stage_clickSelectors opts, stage_getVideoMetadata w, stage_duration opts,
      stage_startRecording w, stage_playVideo w, stage_routeAudio opts w, stage_wait,
      stage_stopRecording w, stage_closeBrowser w, stage_stopDisplay, stage_cleanupAudio w]
     (\<lambda>v. settled_and_played [StartRecording, Sleep 1000] (trace v))
     (\<lambda>v. no_playback_before_capture (trace v))
     (\<lambda>v. no_playback_before_capture (trace v))"
  apply (rule stages_triple_Cons [OF t_quiet [OF quiet_stages(1)]])
  apply (rule stages_triple_Cons [OF t_quiet [OF quiet_stages(2)]])
  apply (rule stages_triple_Cons [OF t_quiet [OF quiet_stages(4)]])
  apply (rule stages_triple_Cons [OF t_quiet [OF quiet_call]], simp, simp)
  apply (rule stages_triple_Cons [OF t_quiet [OF quiet_call]], simp, simp)
  apply (rule stages_triple_Cons [OF t_quiet [OF quiet_call]], simp, simp)
  apply (rule stages_triple_Cons [OF t_quiet [OF quiet_call]], simp, simp)
  apply (rule stages_triple_Cons [OF t_quiet [OF quiet_stages(5)]])
  apply (rule stages_triple_Cons [OF t_quiet [OF quiet_stages(6)]])
  apply (rule stages_triple_Cons [OF t_quiet [OF quiet_stages(7)]])
  apply (rule stages_triple_Cons [OF t_startRecording_order])
  apply (rule stages_triple_Cons [OF t_playVideo_order])
  apply (rule stages_triple_Cons [OF t_appends_played [OF quiet_appends [OF quiet_stages(9)]]])
  apply (rule stages_triple_Cons [OF t_appends_played [OF quiet_appends [OF quiet_stages(10)]]])
  apply (rule stages_triple_Cons [OF t_appends_played [OF quiet_appends [OF quiet_stages(11)]]])
  apply (rule stages_triple_Cons [OF t_appends_played [OF quiet_appends [OF quiet_stages(13)]]])
  apply (rule stages_triple_Cons [OF t_appends_played [OF quiet_appends [OF quiet_stages(14)]]])
  apply (rule stages_triple_Cons [OF t_appends_played [OF quiet_appends [OF quiet_stages(15)]]])
  apply (rule stages_triple_Nil)
  apply assumption
  done

text \<open>The same for \<open>main\<close>, whose capture start, tracking and settle delay are three statements.\<close>

lemma t_startRecording_main_order:
  "stage_triple (\<lambda>v. before_capture (trace v)) (stage_startRecording_main w)
     (\<lambda>v. \<exists>pre. trace v = pre @ [StartRecording] \<and> before_capture pre)
     (\<lambda>v. no_playback_before_capture (trace v))
     (\<lambda>v. no_playback_before_capture (trace v))"
  unfolding stage_triple_def
proof (intro allI impI)
  fix v :: job_vars
  assume b: "before_capture (trace v)"
  show "case stage_startRecording_main w v of
      (Continue, v') \<Rightarrow> \<exists>pre. trace v' = pre @ [StartRecording] \<and> before_capture pre
    | (Throw e, v') \<Rightarrow> no_playback_before_capture (trace v') | (Diverge, v') \<Rightarrow> no_playback_before_capture (trace v')"
    using b reached_capture_no_playback [OF b, of "[]"]
    by (cases "startRecording_returns w") (simp_all add: stage_startRecording_main_def log_call_def)
qed

lemma t_call_extends:
  "stage_triple (\<lambda>v. \<exists>pre. trace v = pre @ xs \<and> before_capture pre) (call e None)
     (\<lambda>v. \<exists>pre. trace v = pre @ (xs @ [e]) \<and> before_capture pre) E D"
  by (auto simp: stage_triple_def call_def log_call_def)

lemma started_settled:
  "\<exists>pre. trace v = pre @ start \<and> before_capture pre \<Longrightarrow> settled start (trace v)"
  unfolding settled_def by (metis append_Nil2)

lemma main_try_order:
  "stages_triple (\<lambda>v. before_capture (trace v))
     [stage_startDisplay w, call (TrackProcess ''xvfb'') None, stage_setupAudio_main w,
      call RegisterCleanupHandler None, stage_startRecording_main w,
      call (TrackProcess ''ffmpeg'') None, call (Sleep 2000) None,
      stage_launchBrowser w, call CreatePage (createPage_throws w),
      call Navigate (navigateToUrl_throws w), call FindVideo (findVideoElement_throws w),
      stage_clickSelectors opts, stage_getVideoMetadata w, stage_playVideo w,
      stage_duration_main opts, stage_wait, stage_stopRecording_main w,
      call (UntrackProcess ''ffmpeg'') None, call CloseBrowser (closeBrowser_throws w),
      call StopDisplay None, call (UntrackProcess ''xvfb'') None,
      call CleanupAudio (cleanupAudioRecording_throws w)]
     (\<lambda>v. settled_and_played [StartRecording, TrackProcess ''ffmpeg'', Sleep 2000] (trace v))
     (\<lambda>v. no_playback_before_capture (trace v))
     (\<lambda>v. no_playback_before_capture (trace v))"
  apply (rule stages_triple_Cons [OF t_quiet [OF quiet_stages(1)]])
  apply (rule stages_triple_Cons [OF t_quiet [OF quiet_call]], simp, simp)
  apply (rule stages_triple_Cons [OF t_quiet [OF quiet_stages(3)]])
  apply (rule stages_triple_Cons [OF t_quiet [OF quiet_call]], simp, simp)
  apply (rule stages_triple_Cons [OF t_startRecording_main_order])
  apply (rule stages_triple_Cons [OF t_call_extends])
  apply (rule stages_triple_Cons [OF t_call_extends])
  apply (rule stages_triple_Cons
      [OF t_weaken_pre [OF t_appends_settled [OF quiet_appends [OF quiet_stages(4)]]]])
   apply (rule started_settled, simp)
  apply (rule stages_triple_Cons [OF t_appends_settled [OF appends_call]])
  apply (rule stages_triple_Cons [OF t_appends_settled [OF appends_call]])
  apply (rule stages_triple_Cons [OF t_appends_settled [OF appends_call]])
  apply (rule stages_triple_Cons [OF t_appends_settled [OF quiet_appends [OF quiet_stages(5)]]])
  apply (rule stages_triple_Cons [OF t_appends_settled [OF quiet_appends [OF quiet_stages(6)]]])
  apply (rule stages_triple_Cons [OF t_playVideo_order])
  apply (rule stages_triple_Cons [OF t_appends_played [OF quiet_appends [OF quiet_stages(8)]]])
  apply (rule stages_triple_Cons [OF t_appends_played [OF quiet_appends [OF quiet_stages(10)]]])
  apply (rule stages_triple_Cons [OF t_appends_played [OF quiet_appends [OF quiet_stages(12)]]])
  apply (rule stages_triple_Cons [OF t_appends_played [OF appends_call]])
  apply (rule stages_triple_Cons [OF t_appends_played [OF appends_call]])
  apply (rule stages_triple_Cons [OF t_appends_played [OF appends_call]])
  apply (rule stages_triple_Cons [OF t_appends_played [OF appends_call]])
  apply (rule stages_triple_Cons [OF t_appends_played [OF appends_call]])
  apply (rule stages_triple_Nil)
  apply assumption
  done

lemma emergency_appends:
  "\<exists>es. trace (snd (emergency_cleanup w v)) = trace v @ es \<and> (\<forall>e\<in>set es. \<not> is_playback e)"
  by (auto simp: emergency_defs)

lemma main_continue_capture:
  assumes "fst (main_try opts w) = Continue"
  shows "\<exists>p. startRecording_returns w = Inr p"
proof (cases "startRecording_returns w")
  case (Inl err)
  then have "fst (main_try opts w) \<noteq> Continue"
    by (auto simp: main_try_def stage_startDisplay_def call_def stage_setupAudio_main_def
        stage_startRecording_main_def split: sum.splits option.splits)
  with assms show ?thesis by simp
next
  case (Inr p)
  then show ?thesis by blast
qed

lemma recordUrl_success_capture:
  assumes "fst (recordUrl opts w) = Resolved r" "success r"
  shows "\<exists>p. startRecording_returns w = Inr p"
proof -
  obtain ro rv where rt: "recordUrl_try opts w = (ro, rv)"
    by (cases "recordUrl_try opts w")
  with assms have "ro = Continue"
    by (auto simp: recordUrl_def split: if_splits outcome.splits prod.splits)
  with rt try_continue_capture [of opts w rv] have "acquired_capture opts w" by simp
  then show ?thesis
    by (cases "startRecording_returns w") (simp_all add: acquired_capture_def)
qed

lemma initial_before_capture: "before_capture (trace initial_vars)"
  by (simp add: initial_vars_def)

lemma played_explicit:
  "settled_and_played start tr \<Longrightarrow>
     \<exists>pre post. tr = pre @ start @ post
        \<and> (\<forall>e\<in>set pre. \<not> is_playback e \<and> e \<noteq> StartRecording) \<and> VideoPlay \<in> set post"
  by (auto simp: settled_and_played_def before_capture_def)

text \<open>
  Claim C7. In every execution of \<open>recordUrl\<close> and of the single-job \<open>main\<close>,
  whatever its outcome, no playback call (a click on the media element or
  \<open>video.play()\<close>) stands before the start of the capture. In every successful
  execution the awaited \<open>startRecording\<close> has returned a capture process, and the
  trace consists of a part without playback calls, then the call of \<open>startRecording\<close>
  followed by the settle delay (\<open>sleep(1000)\<close> directly in \<open>recordUrl\<close>; the
  tracking of the process and \<open>sleep(2000)\<close> in \<open>main\<close>), and only then the rest,
  in which \<open>video.play()\<close> is called.
\<close>

theorem C7_capture_before_playback:
  "no_playback_before_capture (snd (recordUrl opts w))
   \<and> (fst (recordUrl opts w) = Resolved r \<and> success r \<longrightarrow>
        (\<exists>p. startRecording_returns w = Inr p)
        \<and> (\<exists>pre post. snd (recordUrl opts w) = pre @ [StartRecording, Sleep 1000] @ post
           \<and> (\<forall>e\<in>set pre. \<not> is_playback e \<and> e \<noteq> StartRecording)
           \<and> VideoPlay \<in> set post))
   \<and> no_playback_before_capture (trace (snd (main_try opts w)))
   \<and> (fst (main_try opts w) = Continue \<longrightarrow>
        (\<exists>p. startRecording_returns w = Inr p)
        \<and> (\<exists>pre post. trace (snd (main_try opts w))
             = pre @ [StartRecording, TrackProcess ''ffmpeg'', Sleep 2000] @ post
           \<and> (\<forall>e\<in>set pre. \<not> is_playback e \<and> e \<noteq> StartRecording)
           \<and> VideoPlay \<in> set post))"
proof -
  obtain ro rv where rt: "recordUrl_try opts w = (ro, rv)"
    by (cases "recordUrl_try opts w")
  from recordUrl_try_order [of w opts] initial_before_capture rt
  have rfacts: "case ro of
      Continue \<Rightarrow> settled_and_played [StartRecording, Sleep 1000] (trace rv)
    | Throw e \<Rightarrow> no_playback_before_capture (trace rv)
    | Diverge \<Rightarrow> no_playback_before_capture (trace rv)"
    unfolding stages_triple_def recordUrl_try_def by (fastforce split: outcome.splits)
  have 1: "no_playback_before_capture (snd (recordUrl opts w))"
  proof (cases "duration_args_rejected (opt_duration opts) (opt_autoDetectDuration opts)")
    case True
    then show ?thesis by (simp add: recordUrl_def no_playback_before_capture_def)
  next
    case False
    show ?thesis
    proof (cases ro)
      case Continue
      with rfacts have "settled [StartRecording, Sleep 1000] (trace rv)"
        by (simp add: played_settled)
      from settled_no_playback [OF this] False rt Continue show ?thesis
        by (simp add: recordUrl_def)
    next
      case (Throw e)
      with rfacts have n: "no_playback_before_capture (trace rv)" by simp
      obtain es where "trace (snd (emergency_cleanup w rv)) = trace rv @ es"
        "\<forall>e\<in>set es. \<not> is_playback e"
        using emergency_appends by blast
      with no_playback_append_quiet [OF n] False rt Throw show ?thesis
        by (cases "emergency_cleanup w rv"; cases "fst (emergency_cleanup w rv)")
          (simp_all add: recordUrl_def)
    next
      case Diverge
      with rfacts False rt show ?thesis by (simp add: recordUrl_def)
    qed
  qed
  have 2: "\<exists>pre post. snd (recordUrl opts w) = pre @ [StartRecording, Sleep 1000] @ post
           \<and> (\<forall>e\<in>set pre. \<not> is_playback e \<and> e \<noteq> StartRecording)
           \<and> VideoPlay \<in> set post"
    if s: "fst (recordUrl opts w) = Resolved r" "success r"
  proof -
    from s rt have c: "ro = Continue"
      "\<not> duration_args_rejected (opt_duration opts) (opt_autoDetectDuration opts)"
      by (auto simp: recordUrl_def split: if_splits outcome.splits prod.splits)
    with rfacts have "settled_and_played [StartRecording, Sleep 1000] (trace rv)" by simp
    moreover from c rt have "snd (recordUrl opts w) = trace rv" by (simp add: recordUrl_def)
    ultimately show ?thesis
      using played_explicit [of "[StartRecording, Sleep 1000]" "trace rv"] by simp
  qed
  obtain mo mv where mt: "main_try opts w = (mo, mv)"
    by (cases "main_try opts w")
  from main_try_order [of w opts] initial_before_capture mt
  have mfacts: "case mo of
      Continue \<Rightarrow> settled_and_played [StartRecording, TrackProcess ''ffmpeg'', Sleep 2000] (trace mv)
    | Throw e \<Rightarrow> no_playback_before_capture (trace mv)
    | Diverge \<Rightarrow> no_playback_before_capture (trace mv)"
    unfolding stages_triple_def main_try_def by (fastforce split: outcome.splits)
  have 3: "no_playback_before_capture (trace (snd (main_try opts w)))"
  proof (cases mo)
    case Continue
    with mfacts have "settled [StartRecording, TrackProcess ''ffmpeg'', Sleep 2000] (trace mv)"
      by (simp add: played_settled)
    from settled_no_playback [OF this] mt show ?thesis by simp
  next
    case (Throw e)
    with mfacts mt show ?thesis by simp
  next
    case Diverge
    with mfacts mt show ?thesis by simp
  qed
  have 4: "\<exists>pre post. trace (snd (main_try opts w))
             = pre @ [StartRecording, TrackProcess ''ffmpeg'', Sleep 2000] @ post
           \<and> (\<forall>e\<in>set pre. \<not> is_playback e \<and> e \<noteq> StartRecording)
           \<and> VideoPlay \<in> set post"
    if "fst (main_try opts w) = Continue"
  proof -
    from that mt mfacts
    have "settled_and_played [StartRecording, TrackProcess ''ffmpeg'', Sleep 2000] (trace mv)"
      by simp
    with mt played_explicit [of "[StartRecording, TrackProcess ''ffmpeg'', Sleep 2000]" "trace mv"]
    show ?thesis by simp
  qed
  from 1 2 3 4 recordUrl_success_capture [of opts w r] main_continue_capture [of opts w]
  show ?thesis by blast
qed

lemma example_ceiling: "\<lceil>(7 / 2 :: rat)\<rceil> = 4"
  by (rule ceiling_unique) simp_all

lemma replicate_six: "replicate 6 e = [e, e, e, e, e, e]"
  by (simp add: eval_nat_numeral)

lemma example_sum: "to_double 6 = Number 6"
  by code_simp

lemma live_process_stops: "resolved (stopRecording live_process) = ResolvedOnExit"
  by (simp add: stopRecording_def live_process_def kill_def exits_on_def)

lemma stubborn_process_stalls: "resolved (stopRecording stubborn_process) = NotResolved"
  by (simp add: stopRecording_def stubborn_process_def kill_def exits_on_def)

lemmas run_defs = recordUrl_def recordUrl_try_def main_try_def stage_startDisplay_def
  stage_setupAudio_def stage_setupAudio_main_def stage_launchBrowser_def call_def
  stage_clickSelectors_def stage_getVideoMetadata_def stage_duration_def stage_duration_main_def
  stage_startRecording_def stage_startRecording_main_def stage_playVideo_def
  stage_routeAudio_def stage_wait_def stage_stopRecording_def stage_stopRecording_main_def
  stage_closeBrowser_def stage_stopDisplay_def stage_cleanupAudio_def
  closeBrowser_throws_def cleanupAudioRecording_throws_def caught_and_logged_def
  emergency_defs stopRecording_returns_def log_calls_def initial_vars_def
  duration_args_rejected_def actualDuration_recordUrl_def actualDuration_main_def
  autoDetectedDuration_def js_add_opt_def message_def setupAudioRecording_def
  example_ceiling example_sum replicate_six live_process_stops stubborn_process_stalls

lemmas example_defs = default_options_def cooperative_world_def launch_failure_world_def
  playback_failure_world_def stubborn_capture_world_def endless_options_def
  good_attempt_def playing_state_def never_playing_page_def
  rejected_attempt_def stalled_attempt_def
  playVideo_def play_loop.simps attempt_body_def default_play_options_def isPlaying_def
  msg_could_not_start_def string_of_nat.simps digit_char_def

lemma cooperative_run:
  "recordUrl default_options cooperative_world =
    (Resolved \<lparr>success = True, result_outputPath = ''recording.mp4'', result_error = None\<rparr>,
     [StartDisplay, SetupAudio, LaunchBrowser, CreatePage, Navigate,
      SetFullscreen, FindVideo, ClickIfExists ''#consent'', Sleep 500,
      GetMetadata, StartRecording, Sleep 1000, VideoClick, Sleep 500,
      VideoPlay, Sleep 1000, VideoCheck, Sleep 1000, Sleep 1000, Sleep 1000,
      Sleep 1000, Sleep 1000, Sleep 1000, StopRecording 15000, CloseBrowser,
      StopDisplay, CleanupAudio])"
  by (simp add: run_defs example_defs)

lemma cooperative_main_run:
  "main_try default_options cooperative_world =
    (Continue, snd (main_try default_options cooperative_world))
   \<and> trace (snd (main_try default_options cooperative_world)) =
     [StartDisplay, TrackProcess ''xvfb'', SetupAudio, RegisterCleanupHandler,
      StartRecording, TrackProcess ''ffmpeg'', Sleep 2000, LaunchBrowser,
      CreatePage, Navigate, FindVideo, ClickIfExists ''#consent'', Sleep 500,
      GetMetadata, VideoClick, Sleep 500, VideoPlay, Sleep 1000, VideoCheck,
      Sleep 1000, Sleep 1000, Sleep 1000, Sleep 1000, Sleep 1000, Sleep 1000,
      StopRecording 10000, UntrackProcess ''ffmpeg'', CloseBrowser, StopDisplay,
      UntrackProcess ''xvfb'', CleanupAudio]"
  by (simp add: run_defs example_defs)

lemma playback_failure_run:
  "recordUrl default_options playback_failure_world =
    (Resolved \<lparr>success = False, result_outputPath = ''recording.mp4'',
       result_error = Some ''Could not start video playback after 3 attempts''\<rparr>,
     [StartDisplay, SetupAudio, LaunchBrowser, CreatePage, Navigate,
      SetFullscreen, FindVideo, ClickIfExists ''#consent'', Sleep 500,
      GetMetadata, StartRecording, Sleep 1000, VideoClick, Sleep 500,
      VideoPlay, Sleep 1000, VideoClick, Sleep 500, VideoPlay, Sleep 1000,
      VideoCheck, Sleep 1000, VideoClick, Sleep 500, VideoPlay,
      StopRecording 5000, CloseBrowser, StopDisplay, CleanupAudio])"
  by (simp add: run_defs example_defs)


lemma launch_failure_try:
  "recordUrl_try default_options launch_failure_world =
     (Throw (Error ''Failed to launch browser: no display''),
      snd (recordUrl_try default_options launch_failure_world))"
  by (simp add: run_defs example_defs)

lemma launch_failure_facts:
  "\<not> duration_args_rejected (opt_duration default_options) (opt_autoDetectDuration default_options)"
  "startDisplay_returns launch_failure_world = Inr \<lparr>displayNumber = 99, xvfbProcess = live_process\<rparr>"
  "setupAudioRecording_throws launch_failure_world = None"
  "launchBrowser_throws launch_failure_world = Some (Error ''Failed to launch browser: no display'')"
  "releases_owed default_options launch_failure_world = [StopDisplay, CleanupAudio]"
  by (simp_all add: duration_args_rejected_def default_options_def launch_failure_world_def
      cooperative_world_def releases_owed_def acquired_capture_def acquired_browser_def
      acquired_audio_def acquired_display_def)

lemma launch_failure_run_eval:
  "recordUrl default_options launch_failure_world =
       (Resolved \<lparr>success = False, result_outputPath = ''recording.mp4'',
                  result_error = Some ''Failed to launch browser: no display''\<rparr>,
        [StartDisplay, SetupAudio, LaunchBrowser, StopDisplay, CleanupAudio])"
  by (simp add: run_defs example_defs)

lemma stubborn_capture_run:
  "recordUrl default_options stubborn_capture_world =
    (NeverSettles,
     [StartDisplay, SetupAudio, LaunchBrowser, CreatePage, Navigate,
      SetFullscreen, FindVideo, ClickIfExists ''#consent'', Sleep 500,
      GetMetadata, StartRecording, Sleep 1000, VideoClick, Sleep 500,
      VideoPlay, Sleep 1000, VideoClick, Sleep 500, VideoPlay, Sleep 1000,
      VideoCheck, Sleep 1000, VideoClick, Sleep 500, VideoPlay,
      StopRecording 5000])"
  by (simp add: run_defs example_defs)

lemma stubborn_capture_owed:
  "releases_owed default_options stubborn_capture_world =
     [StopRecording 5000, CloseBrowser, StopDisplay, CleanupAudio]"
  by (simp add: releases_owed_def acquired_capture_def acquired_browser_def acquired_audio_def
      acquired_display_def actualDuration_recordUrl_def example_defs)

text \<open>
  Claim C3 at a job whose playback fails after the capture was started, with a capture
  process that does not exit when it is interrupted. The emergency cleanup calls
  \<open>stopRecording\<close>, whose promise stays pending (the timer's test of \<open>killed\<close>
  fails, so it neither kills nor resolves): the browser, the display and the audio
  sink, all acquired, are never released, and \<open>recordUrl\<close> never resolves, so no
  result carries the error. With a capture process that exits on \<open>SIGINT\<close> the same
  failure is followed by the four release calls and the unsuccessful result.
\<close>

theorem C3_teardown_stalls_at_stubborn_capture:
  "recordUrl default_options stubborn_capture_world =
    (NeverSettles,
     [StartDisplay, SetupAudio, LaunchBrowser, CreatePage, Navigate,
      SetFullscreen, FindVideo, ClickIfExists ''#consent'', Sleep 500,
      GetMetadata, StartRecording, Sleep 1000, VideoClick, Sleep 500,
      VideoPlay, Sleep 1000, VideoClick, Sleep 500, VideoPlay, Sleep 1000,
      VideoCheck, Sleep 1000, VideoClick, Sleep 500, VideoPlay,
      StopRecording 5000])
   \<and> filter is_release (snd (recordUrl default_options stubborn_capture_world))
       = [StopRecording 5000]
   \<and> releases_owed default_options stubborn_capture_world =
       [StopRecording 5000, CloseBrowser, StopDisplay, CleanupAudio]
   \<and> startRecording_returns stubborn_capture_world = Inr stubborn_process
   \<and> resolved (stopRecording stubborn_process) = NotResolved
   \<and> recordUrl default_options playback_failure_world =
    (Resolved \<lparr>success = False, result_outputPath = ''recording.mp4'',
       result_error = Some ''Could not start video playback after 3 attempts''\<rparr>,
     [StartDisplay, SetupAudio, LaunchBrowser, CreatePage, Navigate,
      SetFullscreen, FindVideo, ClickIfExists ''#consent'', Sleep 500,
      GetMetadata, StartRecording, Sleep 1000, VideoClick, Sleep 500,
      VideoPlay, Sleep 1000, VideoClick, Sleep 500, VideoPlay, Sleep 1000,
      VideoCheck, Sleep 1000, VideoClick, Sleep 500, VideoPlay,
      StopRecording 5000, CloseBrowser, StopDisplay, CleanupAudio])"
  unfolding stubborn_capture_run playback_failure_run stubborn_capture_owed
  by (simp add: stubborn_capture_world_def stubborn_process_stalls)

text \<open>A job and a single-job run in which every collaborator cooperates.\<close>

theorem C7_capture_before_playback_witness:
  "fst (recordUrl default_options cooperative_world) =
      Resolved \<lparr>success = True, result_outputPath = ''recording.mp4'', result_error = None\<rparr>
   \<and> success \<lparr>success = True, result_outputPath = ''recording.mp4'', result_error = None\<rparr>
   \<and> startRecording_returns cooperative_world = Inr live_process
   \<and> snd (recordUrl default_options cooperative_world) =
     [StartDisplay, SetupAudio, LaunchBrowser, CreatePage, Navigate,
      SetFullscreen, FindVideo, ClickIfExists ''#consent'', Sleep 500, GetMetadata]
     @ [StartRecording, Sleep 1000]
     @ [VideoClick, Sleep 500, VideoPlay, Sleep 1000, VideoCheck, Sleep 1000, Sleep 1000,
        Sleep 1000, Sleep 1000, Sleep 1000, Sleep 1000, StopRecording 15000, CloseBrowser,
        StopDisplay, CleanupAudio]
   \<and> fst (main_try default_options cooperative_world) = Continue
   \<and> trace (snd (main_try default_options cooperative_world)) =
     [StartDisplay, TrackProcess ''xvfb'', SetupAudio, RegisterCleanupHandler]
     @ [StartRecording, TrackProcess ''ffmpeg'', Sleep 2000]
     @ [LaunchBrowser, CreatePage, Navigate, FindVideo, ClickIfExists ''#consent'', Sleep 500,
        GetMetadata, VideoClick, Sleep 500, VideoPlay, Sleep 1000, VideoCheck,
        Sleep 1000, Sleep 1000, Sleep 1000, Sleep 1000, Sleep 1000, Sleep 1000,
        StopRecording 10000, UntrackProcess ''ffmpeg'', CloseBrowser, StopDisplay,
        UntrackProcess ''xvfb'', CleanupAudio]"
proof -
  have m: "fst (main_try default_options cooperative_world) = Continue"
    using cooperative_main_run by (metis fst_conv)
  show ?thesis
    using C7_capture_before_playback [of default_options cooperative_world
        "\<lparr>success = True, result_outputPath = ''recording.mp4'', result_error = None\<rparr>"]
      cooperative_run cooperative_main_run m
    by (simp add: cooperative_world_def)
qed

section \<open>Properties of batch runs\<close>

lemma fill_mset: "fill K q fl = (q', fl') \<Longrightarrow> mset q' + mset fl' = mset q + mset fl"
  by (induction K q fl rule: fill.induct) (auto split: if_splits)

lemma fill_grows: "fill K q fl = (q', fl') \<Longrightarrow> length fl \<le> length fl'"
  by (induction K q fl rule: fill.induct) (fastforce split: if_splits)+

lemma fill_drains:
  assumes "fill K q fl = (q', fl')" "fl' = []" "1 \<le> K"
  shows "q' = []"
proof (cases q)
  case Nil
  with assms show ?thesis by simp
next
  case (Cons j r)
  from fill_grows [OF assms(1)] assms(2) have e: "fl = []" by simp
  with assms(3) Cons assms(1) have "fill K r [j] = (q', fl')" by simp
  from fill_grows [OF this] assms(2) show ?thesis by simp
qed

lemma fill_set: "fill K q fl = (q', fl') \<Longrightarrow> set q' \<union> set fl' = set q \<union> set fl"
  by (metis fill_mset set_mset_mset set_mset_union)

lemma settling_mem: "(j, out) \<in> set (settling job fl) \<longleftrightarrow> j \<in> set fl \<and> job j = Some out"
  by (auto simp: settling_def split: option.splits)

lemma settling_nonempty:
  assumes "fl \<noteq> []" "\<forall>j\<in>set fl. job j \<noteq> None"
  shows "settling job fl \<noteq> []"
proof -
  from assms obtain out where "job (hd fl) = Some out" by (cases fl) auto
  with assms(1) have "(hd fl, out) \<in> set (settling job fl)" by (simp add: settling_mem)
  then show ?thesis by auto
qed

lemma picked_mem:
  assumes "settling job fl \<noteq> []"
    "settling job fl ! (k mod length (settling job fl)) = (j, out)"
  shows "j \<in> set fl \<and> job j = Some out"
proof -
  from assms(1) have "k mod length (settling job fl) < length (settling job fl)" by simp
  from nth_mem [OF this] assms(2) show ?thesis by (simp add: settling_mem)
qed

lemma own_results_snoc:
  "own_results path job col \<Longrightarrow> job j = Some out \<Longrightarrow>
     own_results path job (col @ [(j, capture_outcome (path j) out)])"
  by (auto simp: own_results_def)

lemma pool_run_settled:
  "1 \<le> K \<Longrightarrow> \<forall>j\<in>set q \<union> set fl. job j \<noteq> None \<Longrightarrow> own_results path job col \<Longrightarrow>
     \<exists>rs. pool_run K path job pick n q fl col = Some rs
        \<and> mset (map fst rs) = mset q + mset fl + mset (map fst col)
        \<and> own_results path job rs"
proof (induction K path job pick n q fl col rule: pool_run.induct)
  case (1 K path job pick n q fl col)
  obtain q' fl' where f: "fill K q fl = (q', fl')" by (cases "fill K q fl")
  note m = fill_mset [OF f]
  from fill_set [OF f] "1.prems"(2) have all: "\<forall>j\<in>set q' \<union> set fl'. job j \<noteq> None" by simp
  show ?case
  proof (cases "fl' = []")
    case True
    from fill_drains [OF f True "1.prems"(1)] have "q' = []" .
    with m True have "mset q + mset fl = {#}" by simp
    with f True "1.prems"(3) show ?thesis
      by (subst pool_run.simps) simp
  next
    case False
    with all have ne: "settling job fl' \<noteq> []" by (intro settling_nonempty) auto
    obtain j out where jo: "settling job fl' ! (pick n mod length (settling job fl')) = (j, out)"
      by (cases "settling job fl' ! (pick n mod length (settling job fl'))")
    from picked_mem [OF ne jo] have j: "j \<in> set fl'" "job j = Some out" by simp_all
    have all': "\<forall>i\<in>set q' \<union> set (remove1 j fl'). job i \<noteq> None"
      using all by (auto dest: notin_set_remove1)
    from "1.IH" [OF f [symmetric] False ne jo [symmetric] "1.prems"(1) all'
        own_results_snoc [OF "1.prems"(3) j(2)]]
    obtain rs where rs: "pool_run K path job pick (Suc n) q' (remove1 j fl')
          (col @ [(j, capture_outcome (path j) out)]) = Some rs"
      "mset (map fst rs) = mset q' + mset (remove1 j fl')
          + mset (map fst (col @ [(j, capture_outcome (path j) out)]))"
      "own_results path job rs"
      by blast
    from j(1) have "mset (remove1 j fl') + {#j#} = mset fl'" by simp
    with rs(2) m have "mset (map fst rs) = mset q + mset fl + mset (map fst col)"
      by (simp add: ac_simps)
    moreover have "pool_run K path job pick n q fl col = Some rs"
      using f False ne jo rs(1) by (subst pool_run.simps) simp
    ultimately show ?thesis using rs(3) by blast
  qed
qed

lemma pool_run_pending:
  "1 \<le> K \<Longrightarrow> \<exists>j\<in>set q \<union> set fl. job j = None \<Longrightarrow>
     pool_run K path job pick n q fl col = None"
proof (induction K path job pick n q fl col rule: pool_run.induct)
  case (1 K path job pick n q fl col)
  obtain q' fl' where f: "fill K q fl = (q', fl')" by (cases "fill K q fl")
  from fill_set [OF f] "1.prems"(2) obtain p where p: "p \<in> set q' \<union> set fl'" "job p = None"
    by auto
  show ?case
  proof (cases "fl' = []")
    case True
    from fill_drains [OF f True "1.prems"(1)] have "q' = []" .
    with True p show ?thesis by simp
  next
    case False
    show ?thesis
    proof (cases "settling job fl' = []")
      case True
      with f False show ?thesis by (subst pool_run.simps) simp
    next
      case ne: False
      obtain j out where jo: "settling job fl' ! (pick n mod length (settling job fl')) = (j, out)"
        by (cases "settling job fl' ! (pick n mod length (settling job fl'))")
      from picked_mem [OF ne jo] have j: "j \<in> set fl'" "job j = Some out" by simp_all
      with p have "p \<noteq> j" by auto
      with p have "\<exists>i\<in>set q' \<union> set (remove1 j fl'). job i = None" by auto
      from "1.IH" [OF f [symmetric] False ne jo [symmetric] "1.prems"(1) this]
      show ?thesis
        using f False ne jo by (subst pool_run.simps) simp
    qed
  qed
qed

lemma run_in_order_settled:
  "\<forall>i\<in>set xs. job i \<noteq> None \<Longrightarrow>
     \<exists>rs. run_in_order path job xs = Some rs \<and> map fst rs = xs \<and> own_results path job rs"
proof (induction xs)
  case Nil
  then show ?case by (simp add: own_results_def)
next
  case (Cons i xs)
  then obtain out rs where "job i = Some out" "run_in_order path job xs = Some rs"
    "map fst rs = xs" "own_results path job rs"
    by auto
  then show ?case by (simp add: own_results_def)
qed

lemma run_in_order_pending:
  "\<exists>i\<in>set xs. job i = None \<Longrightarrow> run_in_order path job xs = None"
proof (induction xs)
  case Nil
  then show ?case by simp
next
  case (Cons a xs)
  show ?case
  proof (cases "job a")
    case None
    then show ?thesis by simp
  next
    case (Some out)
    with Cons.prems have "\<exists>i\<in>set xs. job i = None" by auto
    from Cons.IH [OF this] Some show ?thesis by simp
  qed
qed

lemma batch_settled:
  assumes "\<forall>i<n. job i \<noteq> None"
  shows "\<exists>rs. batch_results c n path job pick = Some rs
     \<and> mset (map fst rs) = mset [0..<n] \<and> own_results path job rs
     \<and> (c \<le> 1 \<longrightarrow> map fst rs = [0..<n])"
proof (cases "c \<le> 1")
  case True
  from assms have "\<forall>i\<in>set [0..<n]. job i \<noteq> None" by simp
  from run_in_order_settled [OF this, of path]
  obtain rs where rs: "run_in_order path job [0..<n] = Some rs" "map fst rs = [0..<n]"
    "own_results path job rs"
    by blast
  from rs(2) have m: "mset (map fst rs) = mset [0..<n]" by (simp only:)
  from rs(1) True have b: "batch_results c n path job pick = Some rs"
    by (simp only: batch_results_def runSequential_def if_True)
  show ?thesis
  proof (intro exI [of _ rs] conjI impI)
    show "batch_results c n path job pick = Some rs" by (fact b)
    show "mset (map fst rs) = mset [0..<n]" by (fact m)
    show "own_results path job rs" by (fact rs(3))
    show "map fst rs = [0..<n]" by (fact rs(2))
  qed
next
  case False
  then have k: "1 \<le> c" by simp
  have a: "\<forall>j\<in>set [0..<n] \<union> set []. job j \<noteq> None"
  proof
    fix j assume "j \<in> set [0..<n] \<union> set []"
    then have "j < n" by simp
    with assms show "job j \<noteq> None" by blast
  qed
  have o: "own_results path job []" by (simp add: own_results_def)
  from pool_run_settled [OF k a o, of pick 0]
  obtain rs where rs: "pool_run c path job pick 0 [0..<n] [] [] = Some rs"
    "mset (map fst rs) = mset [0..<n] + mset [] + mset (map fst ([] :: (nat \<times> job_result) list))"
    "own_results path job rs"
    by blast
  from rs(2) have m: "mset (map fst rs) = mset [0..<n]" by simp
  from rs(1) False have b: "batch_results c n path job pick = Some rs"
    by (simp only: batch_results_def runParallel_def if_False)
  show ?thesis
  proof (intro exI [of _ rs] conjI impI)
    show "batch_results c n path job pick = Some rs" by (fact b)
    show "mset (map fst rs) = mset [0..<n]" by (fact m)
    show "own_results path job rs" by (fact rs(3))
    show "map fst rs = [0..<n]" if "c \<le> 1" using that False by simp
  qed
qed

lemma batch_pending:
  assumes "\<exists>i<n. job i = None"
  shows "batch_results c n path job pick = None"
proof (cases "c \<le> 1")
  case True
  from assms have "\<exists>i\<in>set [0..<n]. job i = None" by force
  from run_in_order_pending [OF this] True show ?thesis
    by (simp add: batch_results_def runSequential_def)
next
  case False
  then have k: "1 \<le> c" by simp
  from assms have "\<exists>j\<in>set [0..<n] \<union> set []. job j = None" by force
  from pool_run_pending [OF k this] False show ?thesis
    by (simp add: batch_results_def runParallel_def)
qed

lemma shape_of_indices:
  assumes "mset (map fst rs) = mset [0..<n]"
  shows "length rs = n \<and> distinct (map fst rs) \<and> set (map fst rs) = {0..<n}"
proof -
  from assms have "size (mset (map fst rs)) = size (mset [0..<n])" by simp
  then have 1: "length rs = n" by simp
  from assms have 2: "distinct (map fst rs)"
    by (metis distinct_upt mset_eq_imp_distinct_iff)
  from assms have 3: "set (map fst rs) = {0..<n}"
    by (metis mset_eq_setD set_upt)
  from 1 2 3 show ?thesis by simp
qed

lemma runBatch_end_results:
  "runBatch_end (Some (Inr rs)) = Ends ExitFailure \<longleftrightarrow> (\<exists>r\<in>snd ` set rs. \<not> success r)"
  "runBatch_end (Some (Inr rs)) = Ends ExitSuccess \<longleftrightarrow> (\<forall>r\<in>snd ` set rs. success r)"
  by (auto simp: runBatch_end_def exit_for_def filter_empty_conv)

lemma runBatch_end_other:
  "runBatch_end (Some (Inl fatal)) = Ends ExitFailure" "runBatch_end None = NeverEnds"
  by (simp_all add: runBatch_end_def exit_for_def)

lemma recordUrl_converts:
  assumes "\<not> duration_args_rejected (opt_duration opts) (opt_autoDetectDuration opts)"
    "recordUrl_try opts w = (Throw err, v)" "capture_stops w"
  shows "recordUrl_outcome opts w =
      Some (Returns \<lparr>success = False, result_outputPath = opt_outputPath opts,
                     result_error = Some (message err)\<rparr>)"
  using emergency_teardown(1) [OF assms] by (simp add: recordUrl_outcome_def)

lemma recordUrl_never_raises: "recordUrl_outcome opts w \<noteq> Some (Raises e)"
  by (simp add: recordUrl_outcome_def split: job_end.splits)

lemma endless_job: "recordUrl_outcome endless_options cooperative_world = None"
  by (simp add: recordUrl_outcome_def run_defs example_defs)

text \<open>
  Claim C6, as stated, fails for a batch with a job that never settles. A job asked to
  record without end (\<open>--duration Infinity\<close> with auto-detection off) stays in its
  wait loop: the runner, which waits for its jobs, never returns, so no URL of the
  batch gets a result record and the run does not exit, whatever the concurrency.
\<close>

theorem C6_endless_job_counterexample:
  "endless_first 0 = None
   \<and> batch_results 1 2 five_paths endless_first first_in_flight = None
   \<and> batch_results 2 2 five_paths endless_first first_in_flight = None
   \<and> runBatch 1 2 five_paths endless_first first_in_flight = NeverEnds
   \<and> runBatch 2 2 five_paths endless_first first_in_flight = NeverEnds"
proof -
  have e: "endless_first 0 = None" by (simp add: endless_first_def endless_job)
  then have "\<exists>i<2. endless_first i = None" by (intro exI [of _ 0]) simp
  from batch_pending [OF this] e show ?thesis
    by (simp add: runBatch_def runBatch_end_def)
qed

text \<open>
  Claim C6, amended. For every batch of \<open>n\<close> URLs in which every job settles, every
  concurrency, and every order in which jobs in flight complete: the runner returns
  exactly \<open>n\<close> results, one for each URL index and no index twice (in list order when
  the concurrency is 1); the result of a job is what that job alone produced (a job
  that raises is turned into an unsuccessful result with the error's description), so
  no job's failure changes another job's result; and \<open>runBatch\<close> exits, with failure
  if and only if at least one of the results is unsuccessful. When some job never
  settles the runner never returns and the run does not exit. Whatever runner is
  used: when it throws, \<open>runBatch\<close> exits with failure without results; when it
  returns, \<open>runBatch\<close> exits with failure exactly if a result is unsuccessful. A
  \<open>recordUrl\<close> call whose \<open>try\<close> block throws, its capture process being one that
  stops, returns an unsuccessful record with that error's message, and no call
  raises to the runner.
\<close>

theorem C6_batch_results:
  "((\<forall>i<n. job i \<noteq> None) \<longrightarrow>
      (\<exists>rs. batch_results c n path job pick = Some rs
         \<and> length rs = n \<and> distinct (map fst rs) \<and> set (map fst rs) = {0..<n}
         \<and> (c \<le> 1 \<longrightarrow> map fst rs = [0..<n])
         \<and> own_results path job rs
         \<and> (runBatch c n path job pick = Ends ExitFailure \<longleftrightarrow> (\<exists>r\<in>snd ` set rs. \<not> success r))
         \<and> (runBatch c n path job pick = Ends ExitSuccess \<longleftrightarrow> (\<forall>r\<in>snd ` set rs. success r))))
   \<and> ((\<exists>i<n. job i = None) \<longrightarrow>
        batch_results c n path job pick = None \<and> runBatch c n path job pick = NeverEnds)
   \<and> capture_outcome p (Raises e) =
        \<lparr>success = False, result_outputPath = p, result_error = Some (message e)\<rparr>
   \<and> runBatch_end (Some (Inl fatal)) = Ends ExitFailure
   \<and> (runBatch_end (Some (Inr rs')) = Ends ExitFailure \<longleftrightarrow> (\<exists>r\<in>snd ` set rs'. \<not> success r))
   \<and> (runBatch_end (Some (Inr rs')) = Ends ExitSuccess \<longleftrightarrow> (\<forall>r\<in>snd ` set rs'. success r))
   \<and> runBatch_end None = NeverEnds
   \<and> (\<not> duration_args_rejected (opt_duration opts) (opt_autoDetectDuration opts)
        \<and> recordUrl_try opts w = (Throw err, v) \<and> capture_stops w \<longrightarrow>
        recordUrl_outcome opts w =
          Some (Returns \<lparr>success = False, result_outputPath = opt_outputPath opts,
                         result_error = Some (message err)\<rparr>))
   \<and> recordUrl_outcome opts w \<noteq> Some (Raises e)"
proof -
  have 1: "\<exists>rs. batch_results c n path job pick = Some rs
         \<and> length rs = n \<and> distinct (map fst rs) \<and> set (map fst rs) = {0..<n}
         \<and> (c \<le> 1 \<longrightarrow> map fst rs = [0..<n])
         \<and> own_results path job rs
         \<and> (runBatch c n path job pick = Ends ExitFailure \<longleftrightarrow> (\<exists>r\<in>snd ` set rs. \<not> success r))
         \<and> (runBatch c n path job pick = Ends ExitSuccess \<longleftrightarrow> (\<forall>r\<in>snd ` set rs. success r))"
    if "\<forall>i<n. job i \<noteq> None"
  proof -
    from batch_settled [OF that, where c = c and path = path and pick = pick]
    obtain rs where rs: "batch_results c n path job pick = Some rs"
      "mset (map fst rs) = mset [0..<n]" "own_results path job rs"
      "c \<le> 1 \<longrightarrow> map fst rs = [0..<n]"
      by blast
    from rs(1) have r: "runBatch c n path job pick = runBatch_end (Some (Inr rs))"
      by (simp add: runBatch_def)
    show ?thesis
      using rs shape_of_indices [OF rs(2)] runBatch_end_results [of rs]
      unfolding r by blast
  qed
  have 2: "batch_results c n path job pick = None \<and> runBatch c n path job pick = NeverEnds"
    if "\<exists>i<n. job i = None"
    using batch_pending [OF that, where c = c and path = path and pick = pick]
    by (simp add: runBatch_def runBatch_end_def)
  have 3: "capture_outcome p (Raises e) =
        \<lparr>success = False, result_outputPath = p, result_error = Some (message e)\<rparr>"
    by (simp add: capture_outcome_def)
  from 1 2 3 runBatch_end_other(1) [of fatal] runBatch_end_other(2) runBatch_end_results [of rs']
    recordUrl_converts [of opts w err v] recordUrl_never_raises [of opts w e]
  show ?thesis by blast
qed

lemma five_jobs_run:
  "batch_results 2 5 five_paths five_jobs in_turn =
     Some [(0, \<lparr>success = True, result_outputPath = ''out/0.mp4'', result_error = None\<rparr>),
      (2, \<lparr>success = False, result_outputPath = ''out/2.mp4'', result_error = Some ''boom''\<rparr>),
      (1, \<lparr>success = True, result_outputPath = ''out/1.mp4'', result_error = None\<rparr>),
      (4, \<lparr>success = True, result_outputPath = ''out/4.mp4'', result_error = None\<rparr>),
      (3, \<lparr>success = False, result_outputPath = ''out/3.mp4'',
           result_error = Some ''Video element not found''\<rparr>)]"
  by code_simp

lemma five_jobs_exit: "runBatch 2 5 five_paths five_jobs in_turn = Ends ExitFailure"
  unfolding runBatch_def five_jobs_run by (simp add: runBatch_end_def exit_for_def)

lemma all_good_exit: "runBatch 2 5 five_paths all_good_jobs in_turn = Ends ExitSuccess"
  by code_simp

lemma five_jobs_settle: "\<forall>i<5. five_jobs i \<noteq> None" "\<forall>i<5. all_good_jobs i \<noteq> None"
  by (simp_all add: five_jobs_def all_good_jobs_def)

lemma endless_first_pending: "\<exists>i<2. endless_first i = None"
proof -
  have "endless_first 0 = None" by (simp add: endless_first_def endless_job)
  then show ?thesis by (intro exI [of _ 0]) simp
qed

text \<open>
  Five jobs at concurrency 2, of which one raises and one returns a failure; two jobs
  of which the first never settles; and a job whose browser launch fails.
\<close>

theorem C6_batch_results_witness:
  "batch_results 2 5 five_paths five_jobs in_turn =
     Some [(0, \<lparr>success = True, result_outputPath = ''out/0.mp4'', result_error = None\<rparr>),
      (2, \<lparr>success = False, result_outputPath = ''out/2.mp4'', result_error = Some ''boom''\<rparr>),
      (1, \<lparr>success = True, result_outputPath = ''out/1.mp4'', result_error = None\<rparr>),
      (4, \<lparr>success = True, result_outputPath = ''out/4.mp4'', result_error = None\<rparr>),
      (3, \<lparr>success = False, result_outputPath = ''out/3.mp4'',
           result_error = Some ''Video element not found''\<rparr>)]
   \<and> length (the (batch_results 2 5 five_paths five_jobs in_turn)) = 5
   \<and> set (map fst (the (batch_results 2 5 five_paths five_jobs in_turn))) = {0..<5}
   \<and> own_results five_paths five_jobs (the (batch_results 2 5 five_paths five_jobs in_turn))
   \<and> runBatch 2 5 five_paths five_jobs in_turn = Ends ExitFailure
   \<and> batch_results 2 2 five_paths endless_first first_in_flight = None
   \<and> runBatch 2 2 five_paths endless_first first_in_flight = NeverEnds
   \<and> \<not> duration_args_rejected (opt_duration default_options) (opt_autoDetectDuration default_options)
   \<and> fst (recordUrl_try default_options launch_failure_world)
       = Throw (Error ''Failed to launch browser: no display'')
   \<and> capture_stops launch_failure_world
   \<and> recordUrl_outcome default_options launch_failure_world =
       Some (Returns \<lparr>success = False, result_outputPath = ''recording.mp4'',
                      result_error = Some ''Failed to launch browser: no display''\<rparr>)"
proof -
  note five = C6_batch_results [where n = 5 and job = five_jobs and c = 2
      and path = five_paths and pick = in_turn and opts = default_options
      and w = launch_failure_world and err = "Error ''Failed to launch browser: no display''"
      and v = "snd (recordUrl_try default_options launch_failure_world)"]
  note two = C6_batch_results [where n = 2 and job = endless_first and c = 2
      and path = five_paths and pick = first_in_flight and opts = default_options
      and w = launch_failure_world and err = "Error ''Failed to launch browser: no display''"
      and v = "snd (recordUrl_try default_options launch_failure_world)"]
  have t: "recordUrl_try default_options launch_failure_world =
     (Throw (Error ''Failed to launch browser: no display''),
      snd (recordUrl_try default_options launch_failure_world))"
    by (rule launch_failure_try)
  have d: "\<not> duration_args_rejected (opt_duration default_options)
      (opt_autoDetectDuration default_options)"
    by (rule launch_failure_facts(1))
  have s: "capture_stops launch_failure_world"
    by (simp add: capture_stops_def stopRecording_returns_def launch_failure_world_def
        cooperative_world_def live_process_stops)
  have p: "opt_outputPath default_options = ''recording.mp4''"
    by (simp add: default_options_def)
  have m: "message (Error ''Failed to launch browser: no display'') = ''Failed to launch browser: no display''"
    by (simp add: message_def)
  from five five_jobs_settle(1) five_jobs_run
  have shape: "length (the (batch_results 2 5 five_paths five_jobs in_turn)) = 5"
    "set (map fst (the (batch_results 2 5 five_paths five_jobs in_turn))) = {0..<5}"
    "own_results five_paths five_jobs (the (batch_results 2 5 five_paths five_jobs in_turn))"
    by (metis option.sel)+
  from two endless_first_pending
  have pend: "batch_results 2 2 five_paths endless_first first_in_flight = None"
    "runBatch 2 2 five_paths endless_first first_in_flight = NeverEnds"
    by blast+
  from five t d s p m
  have o: "recordUrl_outcome default_options launch_failure_world =
       Some (Returns \<lparr>success = False, result_outputPath = ''recording.mp4'',
                      result_error = Some ''Failed to launch browser: no display''\<rparr>)"
    by metis
  have f: "fst (recordUrl_try default_options launch_failure_world)
       = Throw (Error ''Failed to launch browser: no display'')"
    by (subst t) simp
  show ?thesis
    by (intro conjI) (rule five_jobs_run shape five_jobs_exit pend d f s o)+
qed
end
